theory Spec2Isabelle
  imports Complex_Main
begin

section \<open>Data model\<close>

text \<open>
  The module \<^verbatim>\<open>common_utils.py\<close> talks to three collaborators: the console
  (\<^verbatim>\<open>print\<close>), the clock (\<^verbatim>\<open>time.time\<close>, \<^verbatim>\<open>time.sleep\<close>) and the
  callables handed in by the caller. All three are made explicit.

  An exception is one of the classes the module and its collaborators tell apart:
  \<^verbatim>\<open>docker.errors.NotFound\<close>; the \<^verbatim>\<open>ValueError\<close> and the \<^verbatim>\<open>OverflowError\<close>
  that \<^verbatim>\<open>time.sleep\<close> raises; any other instance of \<^verbatim>\<open>Exception\<close>; and, as
  \<open>BaseException\<close>, an exception that is not an instance of \<^verbatim>\<open>Exception\<close>
  (\<^verbatim>\<open>KeyboardInterrupt\<close>, \<^verbatim>\<open>SystemExit\<close>), which \<^verbatim>\<open>except Exception\<close> does not
  catch. Each carries its message, which \<^verbatim>\<open>str(e)\<close> returns.
\<close>

datatype exn =
  NotFound string | ValueError string | OverflowError string | OtherException string
| BaseException string

fun str_exn :: "exn \<Rightarrow> string" where
  "str_exn (NotFound m) = m"
| "str_exn (ValueError m) = m"
| "str_exn (OverflowError m) = m"
| "str_exn (OtherException m) = m"
| "str_exn (BaseException m) = m"

text \<open>\<^verbatim>\<open>isinstance(e, Exception)\<close>: what an \<^verbatim>\<open>except Exception\<close> clause catches.\<close>

fun is_Exception :: "exn \<Rightarrow> bool" where
  "is_Exception (BaseException m) = False"
| "is_Exception e = True"

text \<open>
  What a helper does that can be observed from outside, in the order it does it:
  an invocation of a collaborator's callable, a completed \<^verbatim>\<open>time.sleep(d)\<close>,
  a printed line.
\<close>

datatype event = Call | Sleep int | Print string

text \<open>
  The state threaded through every helper: \<open>env\<close> is the private state of the
  collaborators (what their callables read and change), \<open>now\<close> the reading of
  \<^verbatim>\<open>time.time()\<close>, \<open>trace\<close> the events so far.

  A callable returns its outcome, the new state of its collaborator and the time the
  invocation took, which \<open>call\<close> adds to the clock: the wall clock runs while a predicate
  or an operation does. A completed \<^verbatim>\<open>time.sleep(d)\<close> adds exactly \<open>d\<close>. A printed
  line and the steps of a loop take no time, and floating-point rounding is left out.
\<close>

record 's world =
  env :: 's
  now :: rat
  trace :: "event list"

type_synonym ('s, 'a) callable = "'s \<Rightarrow> (exn + 'a) \<times> 's \<times> rat"

definition call :: "('s, 'a) callable \<Rightarrow> 's world \<Rightarrow> (exn + 'a) \<times> 's world" where
  "call f st =
     (case f (env st) of
        (r, s', d) \<Rightarrow> (r, st\<lparr>env := s', now := now st + d, trace := trace st @ [Call]\<rparr>))"

text \<open>
  \<^verbatim>\<open>time.sleep(d)\<close> for an integer \<open>d\<close>. The length is first converted to
  nanoseconds in a signed 64-bit integer, and a length whose nanoseconds do not fit raises
  \<^verbatim>\<open>OverflowError\<close>; \<open>sleep_max\<close> is the largest number of seconds that fits. Then a
  negative length raises \<^verbatim>\<open>ValueError\<close>. Neither sleeps at all. The messages are
  CPython's (up to 3.12 for the overflow, whose wording later versions change slightly).
\<close>

definition sleep_max :: int where
  "sleep_max = (2 ^ 63 - 1) div 10 ^ 9"

definition sleep_error :: "int \<Rightarrow> exn option" where
  "sleep_error d =
     (if d < - sleep_max \<or> sleep_max < d
      then Some (OverflowError ''timestamp too large to convert to C _PyTime_t'')
      else if d < 0 then Some (ValueError ''sleep length must be non-negative'')
      else None)"

definition sleep :: "int \<Rightarrow> 's world \<Rightarrow> exn + 's world" where
  "sleep d st =
     (case sleep_error d of
        Some e \<Rightarrow> Inl e
      | None \<Rightarrow> Inr (st\<lparr>now := now st + of_int d, trace := trace st @ [Sleep d]\<rparr>))"

text \<open>\<^verbatim>\<open>int(x)\<close> on a float: truncation towards zero.\<close>

definition py_int :: "rat \<Rightarrow> int" where
  "py_int x = (if 0 \<le> x then \<lfloor>x\<rfloor> else \<lceil>x\<rceil>)"

subsection \<open>Formatting\<close>

text \<open>The decimal rendering of an integer inside an f-string.\<close>

definition digit :: "nat \<Rightarrow> char" where
  "digit n = ''0123456789'' ! n"

function str_nat :: "nat \<Rightarrow> string" where
  "str_nat n = (if n < 10 then [digit n] else str_nat (n div 10) @ [digit (n mod 10)])"
  by pat_completeness auto
termination
  by (relation "measure id") auto

declare str_nat.simps [simp del]

definition str_int :: "int \<Rightarrow> string" where
  "str_int i = (if i < 0 then CHR ''-'' # str_nat (nat (- i)) else str_nat (nat i))"

text \<open>The class \<^verbatim>\<open>StatusIndicators\<close>.\<close>

definition SUCCESS :: string where "SUCCESS = ''[SUCCESS]''"
definition ERROR :: string where "ERROR = ''[ERROR]''"
definition WARNING :: string where "WARNING = ''[WARNING]''"
definition INFO :: string where "INFO = ''[INFO]''"
definition WORKING :: string where "WORKING = ''[WORKING]''"

text \<open>
  \<^verbatim>\<open>print_status(message, status, details)\<close>: one line, and a second one when
  \<^verbatim>\<open>details\<close> is truthy (neither \<^verbatim>\<open>None\<close> nor the empty string).
\<close>

definition print_status :: "string \<Rightarrow> string \<Rightarrow> string option \<Rightarrow> 's world \<Rightarrow> 's world" where
  "print_status message status details st =
     (let st1 = st\<lparr>trace := trace st @ [Print (status @ '' '' @ message)]\<rparr>
      in case details of
           None \<Rightarrow> st1
         | Some d \<Rightarrow> if d \<noteq> [] then st1\<lparr>trace := trace st1 @ [Print (''  '' @ d)]\<rparr> else st1)"

section \<open>The backoff retrier\<close>

text \<open>The two f-strings of \<^verbatim>\<open>retry_operation\<close>.\<close>

definition retry_failed_msg :: "string \<Rightarrow> int \<Rightarrow> string" where
  "retry_failed_msg description max_retries =
     description @ '' failed after '' @ str_int max_retries @ '' attempts''"

definition retry_attempt_msg :: "string \<Rightarrow> nat \<Rightarrow> int \<Rightarrow> string" where
  "retry_attempt_msg description attempt wait_time =
     description @ '' attempt '' @ str_int (int attempt + 1)
       @ '' failed, retrying in '' @ str_int wait_time @ ''s''"

text \<open>
  \<^verbatim>\<open>retry_operation\<close>. The loop variable \<open>attempt\<close> runs through
  \<^verbatim>\<open>range(max_retries)\<close>; falling off the end of the \<^verbatim>\<open>for\<close> returns
  \<^verbatim>\<open>None\<close>. An exception that \<^verbatim>\<open>except Exception\<close> does not catch leaves the
  function at once. The bare \<^verbatim>\<open>raise\<close> re-raises the exception just caught. An
  exception of \<^verbatim>\<open>time.sleep\<close> is raised inside the handler and leaves the function.
\<close>

function retry_operation_loop ::
  "('s, 'a) callable \<Rightarrow> int \<Rightarrow> int \<Rightarrow> string \<Rightarrow> nat \<Rightarrow> 's world \<Rightarrow> (exn + 'a option) \<times> 's world"
where
  "retry_operation_loop operation_func max_retries delay description attempt st =
     (if int attempt < max_retries then
        (case call operation_func st of
           (Inr v, st1) \<Rightarrow> (Inr (Some v), st1)
         | (Inl e, st1) \<Rightarrow>
             if \<not> is_Exception e then (Inl e, st1)
             else if int attempt = max_retries - 1 then
               (Inl e,
                print_status (retry_failed_msg description max_retries) ERROR (Some (str_exn e)) st1)
             else
               let wait_time = delay * 2 ^ attempt;
                   st2 = print_status (retry_attempt_msg description attempt wait_time)
                           WARNING None st1
               in (case sleep wait_time st2 of
                     Inl e' \<Rightarrow> (Inl e', st2)
                   | Inr st3 \<Rightarrow>
                       retry_operation_loop operation_func max_retries delay description
                         (Suc attempt) st3))
      else (Inr None, st))"
  by pat_completeness auto
termination
  by (relation "measure (\<lambda>(f, m, d, l, a, st). nat (m - int a))") auto

declare retry_operation_loop.simps [simp del]

definition retry_operation ::
  "('s, 'a) callable \<Rightarrow> int \<Rightarrow> int \<Rightarrow> string \<Rightarrow> 's world \<Rightarrow> (exn + 'a option) \<times> 's world"
where
  "retry_operation operation_func max_retries delay description st =
     retry_operation_loop operation_func max_retries delay description 0 st"

section \<open>The bounded poller, generic variant\<close>

definition waiting_msg :: "string \<Rightarrow> int \<Rightarrow> string" where
  "waiting_msg description timeout =
     ''Waiting for '' @ description @ '' (timeout: '' @ str_int timeout @ ''s)''"

definition completed_msg :: "string \<Rightarrow> string" where
  "completed_msg description = description @ '' completed''"

definition still_waiting_for_msg :: "string \<Rightarrow> int \<Rightarrow> string" where
  "still_waiting_for_msg description elapsed =
     ''Still waiting for '' @ description @ ''... ('' @ str_int elapsed @ ''s)''"

definition timed_out_msg :: "string \<Rightarrow> int \<Rightarrow> string" where
  "timed_out_msg description timeout =
     description @ '' timed out after '' @ str_int timeout @ ''s''"

text \<open>
  The \<^verbatim>\<open>while\<close> loop of \<^verbatim>\<open>wait_with_timeout\<close>. Nothing in the function catches
  an exception, so one raised by \<^verbatim>\<open>condition_func\<close> or by \<^verbatim>\<open>time.sleep\<close> leaves
  it. The loop need not end in the model (an interval of \<open>0\<close> and a predicate that takes
  no time never reach the timeout): not returning is the value \<open>None\<close>.
\<close>

partial_function (option) wait_with_timeout_loop ::
  "('s, bool) callable \<Rightarrow> int \<Rightarrow> int \<Rightarrow> string \<Rightarrow> rat \<Rightarrow> 's world \<Rightarrow> ((exn + bool) \<times> 's world) option"
where
  "wait_with_timeout_loop condition_func timeout check_interval description start_time st =
     (if now st - start_time < of_int timeout then
        (case call condition_func st of
           (Inl e, st1) \<Rightarrow> Some (Inl e, st1)
         | (Inr c, st1) \<Rightarrow>
             if c then Some (Inr True, print_status (completed_msg description) SUCCESS None st1)
             else
               let elapsed = py_int (now st1 - start_time);
                   st2 = (if elapsed mod 15 = 0 \<and> elapsed > 0
                          then print_status (still_waiting_for_msg description elapsed) WORKING None st1
                          else st1)
               in (case sleep check_interval st2 of
                     Inl e \<Rightarrow> Some (Inl e, st2)
                   | Inr st3 \<Rightarrow>
                       wait_with_timeout_loop condition_func timeout check_interval description
                         start_time st3))
      else Some (Inr False, print_status (timed_out_msg description timeout) ERROR None st))"

definition wait_with_timeout ::
  "('s, bool) callable \<Rightarrow> int \<Rightarrow> int \<Rightarrow> string \<Rightarrow> 's world \<Rightarrow> ((exn + bool) \<times> 's world) option"
where
  "wait_with_timeout condition_func timeout check_interval description st =
     (let start_time = now st;
          st1 = print_status (waiting_msg description timeout) WORKING None st
      in wait_with_timeout_loop condition_func timeout check_interval description start_time st1)"

section \<open>The bounded poller, container-log variant\<close>

text \<open>
  The Docker SDK is a collaborator: \<open>containers_get\<close> is
  \<^verbatim>\<open>self.client.containers.get\<close> and \<open>container_logs\<close> is \<^verbatim>\<open>container.logs\<close>.
  Both may raise. Bytes are characters; \<^verbatim>\<open>ready_msg in logs\<close> is the test for a
  contiguous occurrence.
\<close>

type_synonym bytes = string

record ('s, 'c) docker_client =
  containers_get :: "string \<Rightarrow> ('s, 'c) callable"
  container_logs :: "'c \<Rightarrow> ('s, bytes) callable"

fun bytes_in :: "bytes \<Rightarrow> bytes \<Rightarrow> bool" where
  "bytes_in m [] = (m = [])"
| "bytes_in m (b # bs) = (take (length m) (b # bs) = m \<or> bytes_in m bs)"

text \<open>The inner \<^verbatim>\<open>for\<close> loop: is one of the ready messages in the logs?\<close>

fun any_ready :: "bytes list \<Rightarrow> bytes \<Rightarrow> bool" where
  "any_ready [] logs = False"
| "any_ready (ready_msg # ready_messages) logs =
     (if bytes_in ready_msg logs then True else any_ready ready_messages logs)"

definition waiting_to_start_msg :: "string \<Rightarrow> int \<Rightarrow> string" where
  "waiting_to_start_msg container_name timeout =
     ''Waiting for '' @ container_name @ '' to start (timeout: '' @ str_int timeout @ ''s)''"

definition is_ready_msg :: "string \<Rightarrow> string" where
  "is_ready_msg container_name = container_name @ '' is ready''"

definition still_waiting_msg :: "int \<Rightarrow> string" where
  "still_waiting_msg elapsed = ''Still waiting... ('' @ str_int elapsed @ ''s elapsed)''"

definition did_not_start_msg :: "string \<Rightarrow> int \<Rightarrow> string" where
  "did_not_start_msg container_name timeout =
     container_name @ '' did not start within '' @ str_int timeout @ ''s''"

definition not_found_msg :: "string \<Rightarrow> string" where
  "not_found_msg container_name = ''Container '' @ container_name @ '' not found''"

definition error_waiting_msg :: "string \<Rightarrow> string" where
  "error_waiting_msg container_name = ''Error waiting for '' @ container_name"

partial_function (option) wait_for_container_loop ::
  "('s, 'c) docker_client \<Rightarrow> 'c \<Rightarrow> string \<Rightarrow> bytes list \<Rightarrow> int \<Rightarrow> int \<Rightarrow> rat \<Rightarrow> 's world
     \<Rightarrow> ((exn + bool) \<times> 's world) option"
where
  "wait_for_container_loop client container container_name ready_messages timeout check_interval
     start_time st =
     (if now st - start_time < of_int timeout then
        (case call (container_logs client container) st of
           (Inl e, st1) \<Rightarrow> Some (Inl e, st1)
         | (Inr logs, st1) \<Rightarrow>
             if any_ready ready_messages logs
             then Some (Inr True, print_status (is_ready_msg container_name) SUCCESS None st1)
             else
               let elapsed = py_int (now st1 - start_time);
                   st2 = (if elapsed mod 10 = 0
                          then print_status (still_waiting_msg elapsed) WORKING None st1
                          else st1)
               in (case sleep check_interval st2 of
                     Inl e \<Rightarrow> Some (Inl e, st2)
                   | Inr st3 \<Rightarrow>
                       wait_for_container_loop client container container_name ready_messages
                         timeout check_interval start_time st3))
      else Some (Inr False, print_status (did_not_start_msg container_name timeout) ERROR None st))"

text \<open>The body of the \<^verbatim>\<open>try\<close> block.\<close>

definition wait_for_container_try ::
  "('s, 'c) docker_client \<Rightarrow> string \<Rightarrow> bytes list \<Rightarrow> int \<Rightarrow> int \<Rightarrow> 's world
     \<Rightarrow> ((exn + bool) \<times> 's world) option"
where
  "wait_for_container_try client container_name ready_messages timeout check_interval st =
     (case call (containers_get client container_name) st of
        (Inl e, st1) \<Rightarrow> Some (Inl e, st1)
      | (Inr container, st1) \<Rightarrow>
          let start_time = now st1;
              st2 = print_status (waiting_to_start_msg container_name timeout) WORKING None st1
          in wait_for_container_loop client container container_name ready_messages timeout
               check_interval start_time st2)"

text \<open>
  \<^verbatim>\<open>DockerHelper.wait_for_container\<close>: the \<^verbatim>\<open>try\<close> block under its two handlers,
  \<^verbatim>\<open>except docker.errors.NotFound\<close> first and \<^verbatim>\<open>except Exception as e\<close> second.
  An exception that neither catches leaves the function.
\<close>

definition wait_for_container ::
  "('s, 'c) docker_client \<Rightarrow> string \<Rightarrow> bytes list \<Rightarrow> int \<Rightarrow> int \<Rightarrow> 's world
     \<Rightarrow> ((exn + bool) \<times> 's world) option"
where
  "wait_for_container client container_name ready_messages timeout check_interval st =
     (case wait_for_container_try client container_name ready_messages timeout check_interval st of
        None \<Rightarrow> None
      | Some (Inr b, st1) \<Rightarrow> Some (Inr b, st1)
      | Some (Inl (NotFound m), st1) \<Rightarrow>
          Some (Inr False, print_status (not_found_msg container_name) ERROR None st1)
      | Some (Inl e, st1) \<Rightarrow>
          if is_Exception e
          then Some (Inr False,
                     print_status (error_waiting_msg container_name) ERROR (Some (str_exn e)) st1)
          else Some (Inl e, st1))"

section \<open>Reading a trace\<close>

definition calls :: "event list \<Rightarrow> nat" where
  "calls tr = length (filter (\<lambda>e. e = Call) tr)"

fun sleeps :: "event list \<Rightarrow> int list" where
  "sleeps [] = []"
| "sleeps (Sleep d # tr) = d # sleeps tr"
| "sleeps (e # tr) = sleeps tr"

text \<open>The trace without its printed lines.\<close>

fun actions :: "event list \<Rightarrow> event list" where
  "actions [] = []"
| "actions (Print l # tr) = actions tr"
| "actions (e # tr) = e # actions tr"

section \<open>Describing a run\<close>

text \<open>
  The state of a callable's collaborator after \<open>i\<close> invocations; the outcome of
  invocation \<open>i\<close> (counted from \<open>0\<close>) and the time it takes; the time the first \<open>j\<close>
  invocations take together.
\<close>

primrec env_after :: "('s, 'a) callable \<Rightarrow> 's \<Rightarrow> nat \<Rightarrow> 's" where
  "env_after f s 0 = s"
| "env_after f s (Suc i) = fst (snd (f (env_after f s i)))"

definition outcome :: "('s, 'a) callable \<Rightarrow> 's \<Rightarrow> nat \<Rightarrow> exn + 'a" where
  "outcome f s i = fst (f (env_after f s i))"

definition took :: "('s, 'a) callable \<Rightarrow> 's \<Rightarrow> nat \<Rightarrow> rat" where
  "took f s i = snd (snd (f (env_after f s i)))"

primrec busy :: "('s, 'a) callable \<Rightarrow> 's \<Rightarrow> nat \<Rightarrow> rat" where
  "busy f s 0 = 0"
| "busy f s (Suc j) = busy f s j + took f s j"

text \<open>
  What attempt \<open>i\<close> of the retrier leaves in the trace when it fails and is not the last,
  and the state after \<open>j\<close> such attempts.
\<close>

definition failed_attempt :: "string \<Rightarrow> int \<Rightarrow> nat \<Rightarrow> event list" where
  "failed_attempt description delay i =
     [Call, Print (WARNING @ '' '' @ retry_attempt_msg description i (delay * 2 ^ i)),
      Sleep (delay * 2 ^ i)]"

definition retried :: "('s, 'a) callable \<Rightarrow> int \<Rightarrow> string \<Rightarrow> nat \<Rightarrow> 's world \<Rightarrow> 's world" where
  "retried f delay description j st =
     st\<lparr>env := env_after f (env st) j,
        now := now st + busy f (env st) j + of_int (delay * (2 ^ j - 1)),
        trace := trace st @ concat (map (failed_attempt description delay) [0..<j])\<rparr>"

text \<open>
  The pollers read the clock twice in each iteration. For a loop entered \<open>e0\<close> time units
  after the start, over a collaborator in state \<open>s\<close>, and as long as every poll so far
  found the predicate false: \<open>guard_elapsed\<close> is the elapsed time that the loop test
  before poll \<open>i\<close> compares with the timeout, and \<open>poll_elapsed\<close> is the elapsed time,
  in whole time units, that poll \<open>i\<close> computes for its progress line.
\<close>

definition guard_elapsed :: "('s, 'a) callable \<Rightarrow> int \<Rightarrow> 's \<Rightarrow> rat \<Rightarrow> nat \<Rightarrow> rat" where
  "guard_elapsed f check_interval s e0 i = e0 + busy f s i + of_int (int i * check_interval)"

definition poll_elapsed :: "('s, 'a) callable \<Rightarrow> int \<Rightarrow> 's \<Rightarrow> rat \<Rightarrow> nat \<Rightarrow> int" where
  "poll_elapsed f check_interval s e0 i =
     py_int (e0 + busy f s (Suc i) + of_int (int i * check_interval))"

text \<open>
  The progress line of an iteration, if it prints one, for the elapsed time it computed:
  in the generic poller and in the container-log poller.
\<close>

definition progress_15 :: "string \<Rightarrow> int \<Rightarrow> event list" where
  "progress_15 description elapsed =
     (if elapsed mod 15 = 0 \<and> 0 < elapsed
      then [Print (WORKING @ '' '' @ still_waiting_for_msg description elapsed)] else [])"

definition progress_10 :: "int \<Rightarrow> event list" where
  "progress_10 elapsed =
     (if elapsed mod 10 = 0
      then [Print (WORKING @ '' '' @ still_waiting_msg elapsed)] else [])"

text \<open>
  What poll \<open>i\<close> of the generic poller leaves in the trace when the predicate is false,
  and the state after \<open>j\<close> such polls.
\<close>

definition false_poll ::
  "string \<Rightarrow> int \<Rightarrow> ('s, bool) callable \<Rightarrow> 's \<Rightarrow> rat \<Rightarrow> nat \<Rightarrow> event list" where
  "false_poll description check_interval f s e0 i =
     Call # progress_15 description (poll_elapsed f check_interval s e0 i)
       @ [Sleep check_interval]"

definition polled ::
  "('s, bool) callable \<Rightarrow> int \<Rightarrow> string \<Rightarrow> rat \<Rightarrow> nat \<Rightarrow> 's world \<Rightarrow> 's world" where
  "polled f check_interval description start_time j st =
     st\<lparr>env := env_after f (env st) j,
        now := now st + busy f (env st) j + of_int (int j * check_interval),
        trace := trace st
          @ concat (map (false_poll description check_interval f (env st) (now st - start_time))
                      [0..<j])\<rparr>"

text \<open>The same for the container-log poller, when no ready message is in the logs.\<close>

definition not_ready_poll ::
  "int \<Rightarrow> ('s, bytes) callable \<Rightarrow> 's \<Rightarrow> rat \<Rightarrow> nat \<Rightarrow> event list" where
  "not_ready_poll check_interval f s e0 i =
     Call # progress_10 (poll_elapsed f check_interval s e0 i) @ [Sleep check_interval]"

definition logs_polled ::
  "('s, bytes) callable \<Rightarrow> int \<Rightarrow> rat \<Rightarrow> nat \<Rightarrow> 's world \<Rightarrow> 's world" where
  "logs_polled f check_interval start_time j st =
     st\<lparr>env := env_after f (env st) j,
        now := now st + busy f (env st) j + of_int (int j * check_interval),
        trace := trace st
          @ concat (map (not_ready_poll check_interval f (env st) (now st - start_time))
                      [0..<j])\<rparr>"

text \<open>The lines the handlers of \<^verbatim>\<open>wait_for_container\<close> print for an exception.\<close>

fun error_report :: "string \<Rightarrow> exn \<Rightarrow> string list" where
  "error_report container_name (NotFound m) = [ERROR @ '' '' @ not_found_msg container_name]"
| "error_report container_name e =
     (ERROR @ '' '' @ error_waiting_msg container_name)
       # (if str_exn e \<noteq> [] then [''  '' @ str_exn e] else [])"

section \<open>Sample collaborators\<close>

text \<open>
  Callables over a counter of their own invocations. \<open>broken\<close> fails every time, with
  a message that numbers the failure; \<open>flaky k\<close> fails until invocation \<open>k\<close> succeeds,
  taking half a time unit each time; \<open>steady\<close> succeeds every time with the same value,
  in a tenth of a time unit; \<open>interrupted\<close> is stopped from the keyboard every time.
\<close>

definition broken :: "(nat, string) callable" where
  "broken s = (Inl (OtherException (''failure '' @ str_nat (Suc s))), Suc s, 0)"

definition flaky :: "nat \<Rightarrow> (nat, string) callable" where
  "flaky k s =
     (if Suc s < k then Inl (OtherException (''failure '' @ str_nat (Suc s))) else Inr ''done'',
      Suc s, 1 / 2)"

definition steady :: "(nat, string) callable" where
  "steady s = (Inr ''ready'', Suc s, 1 / 10)"

definition interrupted :: "(nat, string) callable" where
  "interrupted s = (Inl (BaseException ''KeyboardInterrupt''), Suc s, 0)"

definition w0 :: "nat world" where
  "w0 = \<lparr>env = 0, now = 0, trace = []\<rparr>"

text \<open>
  Predicates over the same counter. \<open>never\<close> is false every time and takes no time;
  \<open>sluggish\<close> is false every time and takes a time unit and a half; \<open>ready_at k\<close> is
  true from evaluation \<open>k\<close> on and \<open>raising_at k\<close> is false until evaluation \<open>k\<close> raises,
  both taking a quarter of a time unit.
\<close>

definition never :: "(nat, bool) callable" where
  "never s = (Inr False, Suc s, 0)"

definition sluggish :: "(nat, bool) callable" where
  "sluggish s = (Inr False, Suc s, 3 / 2)"

definition ready_at :: "nat \<Rightarrow> (nat, bool) callable" where
  "ready_at k s = (Inr (k \<le> Suc s), Suc s, 1 / 4)"

definition raising_at :: "nat \<Rightarrow> (nat, bool) callable" where
  "raising_at k s =
     (if Suc s = k then Inl (OtherException ''probe failed'') else Inr False, Suc s, 1 / 4)"



definition slow_start :: "(nat, unit) docker_client" where
  "slow_start =
     \<lparr>containers_get = (\<lambda>name s. (Inr (), Suc s, 0)),
      container_logs = (\<lambda>c s. (Inr ''booting'', Suc s, 0))\<rparr>"


section \<open>Lemmas on traces, printing and sleeping\<close>

lemma calls_append: "calls (xs @ ys) = calls xs + calls ys"
  by (simp add: calls_def)

lemma calls_simps:
  "calls [] = 0" "calls (Call # tr) = Suc (calls tr)"
  "calls (Sleep d # tr) = calls tr" "calls (Print l # tr) = calls tr"
  by (simp_all add: calls_def)

lemma sleeps_append: "sleeps (xs @ ys) = sleeps xs @ sleeps ys"
  by (induction xs rule: sleeps.induct) auto

lemma actions_append: "actions (xs @ ys) = actions xs @ actions ys"
  by (induction xs rule: actions.induct) auto

lemma print_status_None:
  "print_status m s None st = st\<lparr>trace := trace st @ [Print (s @ '' '' @ m)]\<rparr>"
  by (simp add: print_status_def)

lemma trace_print_status:
  "\<exists>ls. trace (print_status m s d st) = trace st @ map Print ls"
proof (cases "d = None \<or> d = Some []")
  case True
  then have "trace (print_status m s d st) = trace st @ map Print [s @ '' '' @ m]"
    by (auto simp: print_status_def)
  then show ?thesis by blast
next
  case False
  then obtain x where "d = Some x" "x \<noteq> []" by (cases d) auto
  then have "trace (print_status m s d st) = trace st @ map Print [s @ '' '' @ m, ''  '' @ x]"
    by (simp add: print_status_def)
  then show ?thesis by blast
qed

lemma prints_only:
  "calls (map Print ls) = 0" "sleeps (map Print ls) = []" "actions (map Print ls) = []"
  by (induction ls) (simp_all add: calls_simps)

lemma sleep_max_value: "sleep_max = 9223372036"
  by (simp add: sleep_max_def)

lemma sleep_error_None: "sleep_error d = None \<longleftrightarrow> 0 \<le> d \<and> d \<le> sleep_max"
  by (auto simp: sleep_error_def sleep_max_value)

lemma sleep_completes:
  "0 \<le> d \<Longrightarrow> d \<le> sleep_max \<Longrightarrow>
   sleep d st = Inr (st\<lparr>now := now st + of_int d, trace := trace st @ [Sleep d]\<rparr>)"
  using sleep_error_None[of d] by (simp add: sleep_def)

lemma sleep_raises: "sleep_error d = Some e \<Longrightarrow> sleep d st = Inl e"
  by (simp add: sleep_def)


lemma str_nat_digit: "n < 10 \<Longrightarrow> str_nat n = [digit n]"
  by (simp add: str_nat.simps)

lemma str_nat_two_digits:
  "10 \<le> n \<Longrightarrow> n < 100 \<Longrightarrow> str_nat n = [digit (n div 10), digit (n mod 10)]"
  by (subst str_nat.simps) (simp add: str_nat_digit)

section \<open>The sample collaborators, invocation by invocation\<close>

lemma env_after_broken: "env_after broken s i = s + i"
  by (induction i) (simp_all add: broken_def)

lemma env_after_flaky: "env_after (flaky k) s i = s + i"
  by (induction i) (simp_all add: flaky_def)

lemma env_after_never: "env_after never s i = s + i"
  by (induction i) (simp_all add: never_def)

lemma env_after_ready_at: "env_after (ready_at k) s i = s + i"
  by (induction i) (simp_all add: ready_at_def)

lemma env_after_raising_at: "env_after (raising_at k) s i = s + i"
  by (induction i) (simp_all add: raising_at_def)

lemma env_after_sluggish: "env_after sluggish s i = s + i"
  by (induction i) (simp_all add: sluggish_def)

lemma env_after_logs_slow_start: "env_after (container_logs slow_start c) s i = s + i"
  by (induction i) (simp_all add: slow_start_def)

lemma busy_never: "busy never s j = 0"
  by (induction j) (simp_all add: took_def never_def)

lemma busy_ready_at: "busy (ready_at k) s j = of_nat j / 4"
  by (induction j) (simp_all add: took_def ready_at_def field_simps)

lemma busy_raising_at: "busy (raising_at k) s j = of_nat j / 4"
  by (induction j) (simp_all add: took_def raising_at_def field_simps)

lemma busy_sluggish: "busy sluggish s j = 3 * of_nat j / 2"
  by (induction j) (simp_all add: took_def sluggish_def field_simps)

lemma busy_logs_slow_start: "busy (container_logs slow_start c) s j = 0"
  by (induction j) (simp_all add: took_def slow_start_def)

section \<open>Properties of the retrier\<close>

lemma calls_failed_attempts:
  "calls (concat (map (failed_attempt description delay) [0..<j])) = j"
  by (induction j) (simp_all add: calls_append failed_attempt_def calls_simps)

lemma sleeps_failed_attempts:
  "sleeps (concat (map (failed_attempt description delay) [0..<j])) = map (\<lambda>i. delay * 2 ^ i) [0..<j]"
  by (induction j) (simp_all add: sleeps_append failed_attempt_def)

lemma retry_step:
  assumes "0 \<le> delay" "delay * 2 ^ j \<le> sleep_max" "int (Suc j) < max_retries"
    and "outcome f (env st) j = Inl e" "is_Exception e"
  shows "retry_operation_loop f max_retries delay description j (retried f delay description j st)
       = retry_operation_loop f max_retries delay description (Suc j) (retried f delay description (Suc j) st)"
proof -
  obtain s' d where fe: "f (env_after f (env st) j) = (Inl e, s', d)"
    using assms(4) by (cases "f (env_after f (env st) j)") (auto simp: outcome_def)
  have "0 \<le> delay * 2 ^ j" using assms(1) by simp
  note sl = sleep_completes[OF this assms(2)]
  show ?thesis
    apply (subst retry_operation_loop.simps)
    using assms(3,5) fe
    apply (simp add: call_def retried_def sl print_status_None Let_def
        failed_attempt_def took_def algebra_simps)
    done
qed

lemma retry_skip:
  assumes "0 \<le> delay" "int j < max_retries"
    and "\<forall>i<j. delay * 2 ^ i \<le> sleep_max"
    and "\<forall>i<j. \<exists>e. outcome f (env st) i = Inl e \<and> is_Exception e"
  shows "retry_operation_loop f max_retries delay description 0 st
       = retry_operation_loop f max_retries delay description j (retried f delay description j st)"
  using assms(2,3,4)
proof (induction j)
  case 0
  show ?case by (simp add: retried_def)
next
  case (Suc j)
  then have "retry_operation_loop f max_retries delay description 0 st
       = retry_operation_loop f max_retries delay description j (retried f delay description j st)"
    by simp
  also have "\<dots> = retry_operation_loop f max_retries delay description (Suc j) (retried f delay description (Suc j) st)"
  proof -
    from Suc.prems obtain e where "outcome f (env st) j = Inl e" "is_Exception e" by auto
    then show ?thesis using Suc.prems assms(1) by (intro retry_step) auto
  qed
  finally show ?case .
qed

lemma retry_success:
  assumes "int j < max_retries" "f (env st) = (Inr v, s', d)"
  shows "retry_operation_loop f max_retries delay description j st
       = (Inr (Some v), st\<lparr>env := s', now := now st + d, trace := trace st @ [Call]\<rparr>)"
  using assms by (subst retry_operation_loop.simps) (simp add: call_def)

lemma retry_exhausted:
  assumes "int j = max_retries - 1" "f (env st) = (Inl e, s', d)" "is_Exception e"
  shows "retry_operation_loop f max_retries delay description j st
       = (Inl e, print_status (retry_failed_msg description max_retries)
                   ERROR (Some (str_exn e))
                   (st\<lparr>env := s', now := now st + d, trace := trace st @ [Call]\<rparr>))"
  using assms by (subst retry_operation_loop.simps) (simp add: call_def)

lemma retry_uncaught:
  assumes "int j < max_retries" "f (env st) = (Inl e, s', d)" "\<not> is_Exception e"
  shows "retry_operation_loop f max_retries delay description j st
       = (Inl e, st\<lparr>env := s', now := now st + d, trace := trace st @ [Call]\<rparr>)"
  using assms by (subst retry_operation_loop.simps) (simp add: call_def)

lemma calls_retried: "calls (trace (retried f delay description j st)) = calls (trace st) + j"
  by (simp add: retried_def calls_append calls_failed_attempts)

lemma sleeps_retried:
  "sleeps (trace (retried f delay description j st))
     = sleeps (trace st) @ map (\<lambda>i. delay * 2 ^ i) [0..<j]"
  by (simp add: retried_def sleeps_append sleeps_failed_attempts)

text \<open>
  C1, as stated, fails on two kinds of input. With \<open>max_retries = 2\<close> and a delay of
  \<open>10000000000\<close>, an operation that fails every time is invoked once: the sleep before
  the second attempt has a length that \<^verbatim>\<open>time.sleep\<close> refuses, and its
  \<^verbatim>\<open>OverflowError\<close> leaves the function in place of the operation's exception. And
  an operation stopped from the keyboard on every invocation is invoked once, whatever
  \<open>max_retries\<close> is: \<^verbatim>\<open>KeyboardInterrupt\<close> is not an instance of
  \<^verbatim>\<open>Exception\<close>, so it is not retried.
\<close>

theorem retry_operation_always_fails_counterexample:
  "outcome broken (env w0) 0 = Inl (OtherException ''failure 1'')
   \<and> retry_operation broken 2 10000000000 ''fetch'' w0
       = (Inl (OverflowError ''timestamp too large to convert to C _PyTime_t''),
          \<lparr>env = 1, now = 0,
           trace = [Call, Print ''[WARNING] fetch attempt 1 failed, retrying in 10000000000s'']\<rparr>)
   \<and> retry_operation interrupted 3 2 ''fetch'' w0
       = (Inl (BaseException ''KeyboardInterrupt''), \<lparr>env = 1, now = 0, trace = [Call]\<rparr>)"
  by (simp add: outcome_def retry_operation_def retry_operation_loop.simps call_def broken_def
      interrupted_def w0_def sleep_def sleep_error_def sleep_max_value print_status_def
      retry_attempt_msg_def str_int_def str_nat.simps digit_def WARNING_def Let_def)

text \<open>
  C1, amended. Let \<open>max_retries \<ge> 1\<close>, let the delay be non-negative with every sleep
  between two attempts (\<open>delay * 2 ^ i\<close> for \<open>i < max_retries - 1\<close>) of a length
  \<^verbatim>\<open>time.sleep\<close> accepts, and let the operation raise an instance of
  \<^verbatim>\<open>Exception\<close> on every invocation. Then \<^verbatim>\<open>retry_operation\<close> raises, and what
  it raises is the exception of the last invocation, number \<open>max_retries - 1\<close> counted
  from \<open>0\<close>; the operation has been invoked exactly \<open>max_retries\<close> times, with the
  sleeps \<open>delay * 2 ^ i\<close> between the attempts.
\<close>

theorem retry_operation_always_fails:
  assumes "1 \<le> max_retries" and "0 \<le> delay"
    and "\<forall>i. int i < max_retries - 1 \<longrightarrow> delay * 2 ^ i \<le> sleep_max"
    and "\<forall>i. \<exists>e. outcome operation_func (env st) i = Inl e \<and> is_Exception e"
  shows "\<exists>e st'. retry_operation operation_func max_retries delay description st = (Inl e, st')
           \<and> outcome operation_func (env st) (nat max_retries - 1) = Inl e
           \<and> calls (trace st') = calls (trace st) + nat max_retries
           \<and> sleeps (trace st') = sleeps (trace st) @ map (\<lambda>i. delay * 2 ^ i) [0..<nat max_retries - 1]"
proof -
  define j where "j = nat max_retries - 1"
  have j: "int j = max_retries - 1" using assms(1) by (simp add: j_def)
  have n: "nat max_retries = Suc j" using assms(1) by (simp add: j_def)
  let ?st = "retried operation_func delay description j st"
  obtain e where oe: "outcome operation_func (env st) j = Inl e" "is_Exception e"
    using assms(4) by blast
  obtain s' d where fe: "operation_func (env ?st) = (Inl e, s', d)"
    using oe(1) by (cases "operation_func (env ?st)") (auto simp: outcome_def retried_def)
  let ?st1 = "?st\<lparr>env := s', now := now ?st + d, trace := trace ?st @ [Call]\<rparr>"
  let ?stf = "print_status (retry_failed_msg description max_retries) ERROR (Some (str_exn e)) ?st1"
  have "retry_operation operation_func max_retries delay description st
      = retry_operation_loop operation_func max_retries delay description j ?st"
    unfolding retry_operation_def using assms j by (intro retry_skip) auto
  also note retry_exhausted[of j max_retries operation_func ?st e s' d, OF j fe oe(2)]
  finally have run: "retry_operation operation_func max_retries delay description st = (Inl e, ?stf)" .
  obtain ls where ls: "trace ?stf = trace ?st1 @ map Print ls"
    using trace_print_status by blast
  have c: "calls (trace ?stf) = calls (trace st) + Suc j"
    unfolding ls by (simp add: calls_append calls_retried prints_only calls_simps)
  have s: "sleeps (trace ?stf) = sleeps (trace st) @ map (\<lambda>i. delay * 2 ^ i) [0..<j]"
    unfolding ls by (simp add: sleeps_append sleeps_retried prints_only)
  show ?thesis
    unfolding run n using oe(1) c s by (simp add: j_def[symmetric])
qed

theorem retry_operation_always_fails_witness:
  "(1::int) \<le> 3 \<and> (0::int) \<le> 2
   \<and> (\<forall>i. \<exists>e. outcome broken (env w0) i = Inl e \<and> is_Exception e)
   \<and> (\<exists>st'. retry_operation broken 3 2 ''fetch'' w0 = (Inl (OtherException ''failure 3''), st')
         \<and> calls (trace st') = 3 \<and> sleeps (trace st') = [2, 4])"
proof -
  have fails: "\<forall>i. \<exists>e. outcome broken (env w0) i = Inl e \<and> is_Exception e"
    by (simp add: outcome_def broken_def)
  have range: "\<forall>i. int i < 3 - 1 \<longrightarrow> 2 * 2 ^ i \<le> sleep_max"
  proof (intro allI impI)
    fix i :: nat assume "int i < 3 - 1"
    then have "i = 0 \<or> i = 1" by auto
    then show "2 * 2 ^ i \<le> sleep_max" by (auto simp: sleep_max_value)
  qed
  have last: "outcome broken (env w0) 2 = Inl (OtherException ''failure 3'')"
    by (simp add: outcome_def env_after_broken broken_def w0_def str_nat_digit digit_def)
  have up: "[0..<2] = [0, Suc 0]" by (simp add: upt_rec)
  from retry_operation_always_fails [of 3 2 broken w0 "''fetch''"] fails range last
  have "\<exists>st'. retry_operation broken 3 2 ''fetch'' w0 = (Inl (OtherException ''failure 3''), st')
         \<and> calls (trace st') = 3 \<and> sleeps (trace st') = [2, 4]"
    by (auto simp: w0_def calls_simps up)
  with fails show ?thesis by simp
qed

text \<open>
  C2, as stated, fails. With \<open>max_retries = 2\<close> and a delay of \<open>10000000000\<close>, an
  operation that fails on its first invocation and would succeed on its second is invoked
  once: \<^verbatim>\<open>time.sleep\<close> refuses the length, and \<^verbatim>\<open>retry_operation\<close> raises its
  \<^verbatim>\<open>OverflowError\<close> and never returns the value.
\<close>

theorem retry_operation_succeeds_at_counterexample:
  "outcome (flaky 2) (env w0) 0 = Inl (OtherException ''failure 1'')
   \<and> outcome (flaky 2) (env w0) 1 = Inr ''done''
   \<and> retry_operation (flaky 2) 2 10000000000 ''fetch'' w0
       = (Inl (OverflowError ''timestamp too large to convert to C _PyTime_t''),
          \<lparr>env = 1, now = 1 / 2,
           trace = [Call, Print ''[WARNING] fetch attempt 1 failed, retrying in 10000000000s'']\<rparr>)"
  by (simp add: outcome_def retry_operation_def retry_operation_loop.simps call_def flaky_def
      w0_def sleep_def sleep_error_def sleep_max_value print_status_def
      retry_attempt_msg_def str_int_def str_nat.simps digit_def WARNING_def Let_def)

text \<open>
  C2, amended. Let the operation raise an instance of \<^verbatim>\<open>Exception\<close> on its first
  \<open>k - 1\<close> invocations and return \<open>v\<close> on invocation \<open>k\<close>, with
  \<open>1 \<le> k \<le> max_retries\<close>, and let the delay be non-negative with the \<open>k - 1\<close> sleeps
  of lengths \<^verbatim>\<open>time.sleep\<close> accepts. Then \<^verbatim>\<open>retry_operation\<close> returns \<open>v\<close>
  itself after exactly \<open>k\<close> invocations.
\<close>

theorem retry_operation_succeeds_at:
  assumes "1 \<le> k" and "int k \<le> max_retries" and "0 \<le> delay"
    and "\<forall>i<k - 1. delay * 2 ^ i \<le> sleep_max"
    and "\<forall>i<k - 1. \<exists>e. outcome operation_func (env st) i = Inl e \<and> is_Exception e"
    and "outcome operation_func (env st) (k - 1) = Inr v"
  shows "\<exists>st'. retry_operation operation_func max_retries delay description st = (Inr (Some v), st')
           \<and> calls (trace st') = calls (trace st) + k
           \<and> sleeps (trace st') = sleeps (trace st) @ map (\<lambda>i. delay * 2 ^ i) [0..<k - 1]"
proof -
  obtain j where k: "k = Suc j" using assms(1) by (cases k) auto
  have j: "int j < max_retries" using assms(2) k by simp
  have ok: "\<forall>i<j. delay * 2 ^ i \<le> sleep_max" using assms(4) k by simp
  have fails: "\<forall>i<j. \<exists>e. outcome operation_func (env st) i = Inl e \<and> is_Exception e"
    using assms(5) k by simp
  let ?st = "retried operation_func delay description j st"
  obtain s' d where fe: "operation_func (env ?st) = (Inr v, s', d)"
    using assms(6) k
    by (cases "operation_func (env ?st)") (auto simp: outcome_def retried_def)
  have "retry_operation operation_func max_retries delay description st
      = retry_operation_loop operation_func max_retries delay description j ?st"
    unfolding retry_operation_def using assms(3) j ok fails by (rule retry_skip)
  also note retry_success[of j max_retries operation_func ?st v s' d, OF j fe]
  finally have run: "retry_operation operation_func max_retries delay description st =
     (Inr (Some v), ?st\<lparr>env := s', now := now ?st + d, trace := trace ?st @ [Call]\<rparr>)" .
  show ?thesis
    unfolding run k
    by (simp add: calls_append sleeps_append calls_retried sleeps_retried calls_simps)
qed

theorem retry_operation_succeeds_at_witness:
  "(1::nat) \<le> 3 \<and> int 3 \<le> 5 \<and> (0::int) \<le> 2
   \<and> 2 * 2 ^ 0 \<le> sleep_max \<and> 2 * 2 ^ 1 \<le> sleep_max
   \<and> outcome (flaky 3) (env w0) 0 = Inl (OtherException ''failure 1'')
   \<and> outcome (flaky 3) (env w0) 1 = Inl (OtherException ''failure 2'')
   \<and> outcome (flaky 3) (env w0) 2 = Inr ''done''
   \<and> (\<exists>st'. retry_operation (flaky 3) 5 2 ''fetch'' w0 = (Inr (Some ''done''), st')
         \<and> calls (trace st') = 3 \<and> sleeps (trace st') = [2, 4])"
proof -
  have each: "outcome (flaky 3) (env w0) 0 = Inl (OtherException ''failure 1'')"
    "outcome (flaky 3) (env w0) 1 = Inl (OtherException ''failure 2'')"
    "outcome (flaky 3) (env w0) 2 = Inr ''done''"
    by (simp_all add: outcome_def env_after_flaky flaky_def w0_def str_nat_digit digit_def
        del: env_after.simps)
  have range: "2 * 2 ^ 0 \<le> sleep_max" "2 * 2 ^ 1 \<le> sleep_max"
    by (simp_all add: sleep_max_value)
  have r: "\<forall>i<3 - 1. 2 * 2 ^ i \<le> sleep_max"
    using range by (auto simp: less_Suc_eq numeral_2_eq_2)
  have fails: "\<forall>i<3 - 1. \<exists>e. outcome (flaky 3) (env w0) i = Inl e \<and> is_Exception e"
    using each(1,2) by (auto simp: less_Suc_eq numeral_2_eq_2)
  have up: "[0..<2] = [0, Suc 0]" by (simp add: upt_rec)
  from retry_operation_succeeds_at [of 3 5 2 "flaky 3" w0 "''done''" "''fetch''"] r fails each(3)
  have "\<exists>st'. retry_operation (flaky 3) 5 2 ''fetch'' w0 = (Inr (Some ''done''), st')
         \<and> calls (trace st') = 3 \<and> sleeps (trace st') = [2, 4]"
    by (auto simp: w0_def calls_simps up)
  with each range show ?thesis by simp
qed

lemma retry_shape:
  "\<exists>evs m. trace (snd (retry_operation_loop f n d l a st)) = trace st @ evs
     \<and> actions evs = (if int a < n then Call # concat (map (\<lambda>i. [Sleep (d * 2 ^ i), Call]) [a..<a + m]) else [])
     \<and> sleeps evs = map (\<lambda>i. d * 2 ^ i) [a..<a + m]"
proof (induction f n d l a st rule: retry_operation_loop.induct)
  case (1 f n d l a st)
  show ?case
  proof (cases "int a < n")
    case False
    then have run: "retry_operation_loop f n d l a st = (Inr None, st)"
      by (subst retry_operation_loop.simps) simp
    show ?thesis unfolding run using False
      by (intro exI[of _ "[]"] exI[of _ 0]) simp
  next
    case lt: True
    obtain r s' t where fr: "f (env st) = (r, s', t)" by (cases "f (env st)")
    let ?st1 = "st\<lparr>env := s', now := now st + t, trace := trace st @ [Call]\<rparr>"
    have c: "call f st = (r, ?st1)" by (simp add: call_def fr)
    show ?thesis
    proof (cases r)
      case (Inr v)
      have run: "retry_operation_loop f n d l a st = (Inr (Some v), ?st1)"
        using retry_success[of a n f st v s' t d l] lt fr Inr by simp
      show ?thesis unfolding run using lt
        by (intro exI[of _ "[Call]"] exI[of _ 0]) simp
    next
      case (Inl e)
      show ?thesis
      proof (cases "is_Exception e")
        case False
        have run: "retry_operation_loop f n d l a st = (Inl e, ?st1)"
          using retry_uncaught[of a n f st e s' t d l] lt fr Inl False by simp
        show ?thesis unfolding run using lt
          by (intro exI[of _ "[Call]"] exI[of _ 0]) simp
      next
        case caught: True
        show ?thesis
        proof (cases "int a = n - 1")
          case True
          let ?stf = "print_status (retry_failed_msg l n) ERROR (Some (str_exn e)) ?st1"
          obtain ls where ls: "trace ?stf = trace ?st1 @ map Print ls"
            using trace_print_status by blast
          have run: "retry_operation_loop f n d l a st = (Inl e, ?stf)"
            using retry_exhausted[of a n f st e s' t d l] True fr Inl caught by simp
          show ?thesis unfolding run using lt ls
            by (intro exI[of _ "Call # map Print ls"] exI[of _ 0]) (simp add: prints_only)
        next
          case False
          let ?w = "d * 2 ^ a"
          let ?st2 = "print_status (retry_attempt_msg l a ?w) WARNING None ?st1"
          have t2: "trace ?st2 = trace st @ [Call, Print (WARNING @ '' '' @ retry_attempt_msg l a ?w)]"
            by (simp add: print_status_None)
          show ?thesis
          proof (cases "sleep_error ?w")
            case (Some e')
            have run: "retry_operation_loop f n d l a st = (Inl e', ?st2)"
              using lt c Inl False caught sleep_raises[OF Some, of ?st2]
              by (subst retry_operation_loop.simps) (simp add: Let_def)
            show ?thesis unfolding run using lt t2
              by (intro exI[of _ "[Call, Print (WARNING @ '' '' @ retry_attempt_msg l a ?w)]"] exI[of _ 0]) simp
          next
            case None
            let ?st3 = "?st2\<lparr>now := now ?st2 + of_int ?w, trace := trace ?st2 @ [Sleep ?w]\<rparr>"
            have sl: "sleep ?w ?st2 = Inr ?st3" using None by (simp add: sleep_def)
            have lt': "int (Suc a) < n" using lt False by simp
            from "1.IH"[OF lt c[symmetric] Inl _ False refl refl sl] caught
            obtain evs m where
              ih: "trace (snd (retry_operation_loop f n d l (Suc a) ?st3)) = trace ?st3 @ evs"
                "actions evs = Call # concat (map (\<lambda>i. [Sleep (d * 2 ^ i), Call]) [Suc a..<Suc a + m])"
                "sleeps evs = map (\<lambda>i. d * 2 ^ i) [Suc a..<Suc a + m]"
              using lt' by auto
            have unfold: "retry_operation_loop f n d l a st = retry_operation_loop f n d l (Suc a) ?st3"
              using lt c Inl False sl caught
              by (subst retry_operation_loop.simps) (simp add: Let_def)
            have up: "[a..<a + Suc m] = a # [Suc a..<Suc a + m]"
              by (simp add: upt_conv_Cons)
            have t3: "trace ?st3 = trace st @ [Call, Print (WARNING @ '' '' @ retry_attempt_msg l a ?w), Sleep ?w]"
              using t2 by simp
            show ?thesis
              unfolding unfold ih(1) t3 up
              apply (rule exI[of _ "[Call, Print (WARNING @ '' '' @ retry_attempt_msg l a ?w), Sleep ?w] @ evs"])
              apply (rule exI[of _ "Suc m"])
              using lt ih(2,3) unfolding up
              apply (simp add: actions_append sleeps_append)
              done
          qed
        qed
      qed
    qed
  qed
qed

lemma sorted_doubling: "0 \<le> (d::int) \<Longrightarrow> sorted (map (\<lambda>i. d * 2 ^ i) [0..<m])"
  by (auto simp: sorted_iff_nth_mono intro!: mult_left_mono power_increasing)

lemma shifted_exponents:
  "map (\<lambda>i. f (i - 1)) [1..<Suc m] = map f [0..<m]"
  by (induction m) simp_all

text \<open>
  C3. Whatever the operation does, a run of \<^verbatim>\<open>retry_operation\<close> with
  \<open>max_retries \<ge> 1\<close> is attempt \<open>0\<close> followed, for each further attempt \<open>i \<ge> 1\<close> it
  makes, by a sleep of exactly \<open>delay * 2 ^ (i - 1)\<close> and then attempt \<open>i\<close>. For
  \<open>delay \<ge> 0\<close> the sleeps are non-decreasing. With \<open>delay = 2\<close> and four failing
  attempts they are \<open>2, 4, 8\<close>.
\<close>

theorem retry_operation_backoff:
  assumes "1 \<le> max_retries"
  shows "\<exists>evs c. trace (snd (retry_operation operation_func max_retries delay description st)) = trace st @ evs
           \<and> actions evs = Call # concat (map (\<lambda>i. [Sleep (delay * 2 ^ (i - 1)), Call]) [1..<c])
           \<and> sleeps evs = map (\<lambda>i. delay * 2 ^ (i - 1)) [1..<c]
           \<and> (0 \<le> delay \<longrightarrow> sorted (sleeps evs))"
proof -
  obtain evs m where
    e: "trace (snd (retry_operation operation_func max_retries delay description st)) = trace st @ evs"
      "actions evs = Call # concat (map (\<lambda>i. [Sleep (delay * 2 ^ i), Call]) [0..<m])"
      "sleeps evs = map (\<lambda>i. delay * 2 ^ i) [0..<m]"
    using retry_shape[of operation_func max_retries delay description 0 st] assms
    unfolding retry_operation_def by auto
  have a: "map (\<lambda>i. [Sleep (delay * 2 ^ (i - 1)), Call]) [1..<Suc m] = map (\<lambda>i. [Sleep (delay * 2 ^ i), Call]) [0..<m]"
    by (rule shifted_exponents[of "\<lambda>i. [Sleep (delay * 2 ^ i), Call]"])
  have b: "map (\<lambda>i. delay * 2 ^ (i - 1)) [1..<Suc m] = map (\<lambda>i. delay * 2 ^ i) [0..<m]"
    by (rule shifted_exponents[of "\<lambda>i. delay * 2 ^ i"])
  show ?thesis
    apply (rule exI[of _ evs])
    apply (rule exI[of _ "Suc m"])
    unfolding a b using e sorted_doubling[of delay m] by simp
qed

lemma broken_run:
  "retry_operation broken 4 2 ''fetch'' w0 =
     (Inl (OtherException ''failure 4''),
      \<lparr>env = 4, now = 14,
       trace = [Call, Print ''[WARNING] fetch attempt 1 failed, retrying in 2s'', Sleep 2,
                Call, Print ''[WARNING] fetch attempt 2 failed, retrying in 4s'', Sleep 4,
                Call, Print ''[WARNING] fetch attempt 3 failed, retrying in 8s'', Sleep 8,
                Call, Print ''[ERROR] fetch failed after 4 attempts'', Print ''  failure 4'']\<rparr>)"
  by (simp add: retry_operation_def retry_operation_loop.simps call_def broken_def w0_def
      sleep_def sleep_error_def sleep_max_value print_status_def retry_attempt_msg_def
      retry_failed_msg_def str_int_def str_nat_digit digit_def WARNING_def ERROR_def Let_def)

theorem retry_operation_backoff_witness:
  "(1::int) \<le> 4 \<and> (0::int) \<le> 2
   \<and> sleeps (trace (snd (retry_operation broken 4 2 ''fetch'' w0))) = [2, 4, 8]
   \<and> sorted (sleeps (trace (snd (retry_operation broken 4 2 ''fetch'' w0))))"
proof -
  from retry_operation_backoff [of 4 broken 2 "''fetch''" w0]
  obtain evs where "trace (snd (retry_operation broken 4 2 ''fetch'' w0)) = trace w0 @ evs"
    and "sorted (sleeps evs)" by auto
  then have "sorted (sleeps (trace (snd (retry_operation broken 4 2 ''fetch'' w0))))"
    by (simp add: w0_def)
  moreover have "sleeps (trace (snd (retry_operation broken 4 2 ''fetch'' w0))) = [2, 4, 8]"
    by (simp add: broken_run)
  ultimately show ?thesis by simp
qed

text \<open>
  C9. Let the operation succeed on every invocation with the same value \<open>v\<close>. Two calls
  of \<^verbatim>\<open>retry_operation\<close> in a row both return \<open>v\<close>; each adds one invocation to the
  trace and nothing else, so neither sleeps, and the clock has moved by the time the two
  invocations took and no more.
\<close>

theorem retry_operation_idempotent:
  assumes "1 \<le> max_retries" and "\<forall>s. fst (operation_func s) = Inr v"
  shows "\<exists>st1 st2.
           retry_operation operation_func max_retries delay description st = (Inr (Some v), st1)
         \<and> retry_operation operation_func max_retries delay description st1 = (Inr (Some v), st2)
         \<and> trace st1 = trace st @ [Call] \<and> trace st2 = trace st1 @ [Call]
         \<and> now st2 = now st + took operation_func (env st) 0 + took operation_func (env st) 1"
proof -
  have one: "retry_operation operation_func max_retries delay description w
              = (Inr (Some v), w\<lparr>env := fst (snd (operation_func (env w))),
                                  now := now w + snd (snd (operation_func (env w))),
                                  trace := trace w @ [Call]\<rparr>)" for w
  proof -
    have "operation_func (env w)
        = (Inr v, fst (snd (operation_func (env w))), snd (snd (operation_func (env w))))"
      using assms(2)[rule_format, of "env w"] by (cases "operation_func (env w)") simp
    then show ?thesis
      unfolding retry_operation_def using assms(1) by (intro retry_success) auto
  qed
  show ?thesis
    by (simp add: one took_def)
qed

theorem retry_operation_idempotent_witness:
  "(1::int) \<le> 3 \<and> (\<forall>s. fst (steady s) = Inr ''ready'')
   \<and> (\<exists>st1 st2. retry_operation steady 3 2 ''fetch'' w0 = (Inr (Some ''ready''), st1)
         \<and> retry_operation steady 3 2 ''fetch'' st1 = (Inr (Some ''ready''), st2)
         \<and> trace st1 = [Call] \<and> trace st2 = [Call, Call] \<and> now st2 = 1 / 5)"
  using retry_operation_idempotent [of 3 steady "''ready''" 2 "''fetch''" w0]
  by (auto simp: steady_def w0_def took_def)

text \<open>
  C10. Called with \<open>max_retries \<le> 0\<close>, \<^verbatim>\<open>retry_operation\<close> never enters the loop
  body: it returns \<^verbatim>\<open>None\<close> and leaves the state as it found it, so the operation
  is not invoked, nothing is slept, nothing is printed and nothing is raised.
\<close>

theorem retry_operation_no_attempts:
  "max_retries \<le> 0 \<Longrightarrow>
   retry_operation operation_func max_retries delay description st = (Inr None, st)"
  by (simp add: retry_operation_def retry_operation_loop.simps)

theorem retry_operation_no_attempts_witness:
  "(0::int) \<le> 0 \<and> retry_operation broken 0 2 ''fetch'' w0 = (Inr None, w0)"
  using retry_operation_no_attempts [of 0 broken 2 "''fetch''" w0] by simp

section \<open>Properties of the generic poller\<close>

lemma poll_true:
  assumes "now st - start_time < of_int timeout" "f (env st) = (Inr True, s', d)"
  shows "wait_with_timeout_loop f timeout check_interval description start_time st
       = Some (Inr True, st\<lparr>env := s', now := now st + d,
                 trace := trace st @ [Call, Print (SUCCESS @ '' '' @ completed_msg description)]\<rparr>)"
  using assms by (subst wait_with_timeout_loop.simps) (simp add: call_def print_status_None)

lemma poll_raise:
  assumes "now st - start_time < of_int timeout" "f (env st) = (Inl e, s', d)"
  shows "wait_with_timeout_loop f timeout check_interval description start_time st
       = Some (Inl e, st\<lparr>env := s', now := now st + d, trace := trace st @ [Call]\<rparr>)"
  using assms by (subst wait_with_timeout_loop.simps) (simp add: call_def)

lemma poll_timeout:
  assumes "\<not> now st - start_time < of_int timeout"
  shows "wait_with_timeout_loop f timeout check_interval description start_time st
       = Some (Inr False, st\<lparr>trace := trace st @ [Print (ERROR @ '' '' @ timed_out_msg description timeout)]\<rparr>)"
  using assms by (subst wait_with_timeout_loop.simps) (simp add: print_status_None)

lemma poll_false:
  assumes "now st - start_time < of_int timeout" "f (env st) = (Inr False, s', d)"
    and "sleep_error check_interval = None"
  shows "wait_with_timeout_loop f timeout check_interval description start_time st
       = wait_with_timeout_loop f timeout check_interval description start_time
           (st\<lparr>env := s', now := now st + d + of_int check_interval,
               trace := trace st @ Call # progress_15 description (py_int (now st + d - start_time))
                          @ [Sleep check_interval]\<rparr>)"
  using assms
  by (subst wait_with_timeout_loop.simps)
     (simp add: call_def print_status_None sleep_def Let_def progress_15_def)

lemma poll_false_sleep_raises:
  assumes "now st - start_time < of_int timeout" "f (env st) = (Inr False, s', d)"
    and "sleep_error check_interval = Some e"
  shows "wait_with_timeout_loop f timeout check_interval description start_time st
       = Some (Inl e, st\<lparr>env := s', now := now st + d,
               trace := trace st @ Call # progress_15 description (py_int (now st + d - start_time))\<rparr>)"
  using assms
  by (subst wait_with_timeout_loop.simps)
     (simp add: call_def print_status_None sleep_def Let_def progress_15_def)

lemma poll_step:
  assumes "0 \<le> check_interval" "check_interval \<le> sleep_max"
    and "outcome f (env st) j = Inr False"
    and "guard_elapsed f check_interval (env st) (now st - start_time) j < of_int timeout"
  shows "wait_with_timeout_loop f timeout check_interval description start_time
           (polled f check_interval description start_time j st)
       = wait_with_timeout_loop f timeout check_interval description start_time
           (polled f check_interval description start_time (Suc j) st)"
proof -
  let ?stj = "polled f check_interval description start_time j st"
  obtain s' d where fe: "f (env ?stj) = (Inr False, s', d)"
    using assms(3) by (cases "f (env ?stj)") (auto simp: outcome_def polled_def)
  have s': "s' = env_after f (env st) (Suc j)" and d: "d = took f (env st) j"
    using fe by (simp_all add: polled_def took_def)
  have guard: "now ?stj - start_time < of_int timeout"
    using assms(4) by (simp add: polled_def guard_elapsed_def algebra_simps)
  have ok: "sleep_error check_interval = None"
    using assms(1,2) by (simp add: sleep_error_None)
  have el: "py_int (now ?stj + d - start_time)
          = poll_elapsed f check_interval (env st) (now st - start_time) j"
    by (simp add: poll_elapsed_def polled_def d algebra_simps)
  have "wait_with_timeout_loop f timeout check_interval description start_time ?stj
      = wait_with_timeout_loop f timeout check_interval description start_time
           (?stj\<lparr>env := s', now := now ?stj + d + of_int check_interval,
               trace := trace ?stj @ Call # progress_15 description (py_int (now ?stj + d - start_time))
                          @ [Sleep check_interval]\<rparr>)"
    using guard fe ok by (rule poll_false)
  also have "?stj\<lparr>env := s', now := now ?stj + d + of_int check_interval,
               trace := trace ?stj @ Call # progress_15 description (py_int (now ?stj + d - start_time))
                          @ [Sleep check_interval]\<rparr>
           = polled f check_interval description start_time (Suc j) st"
    unfolding el by (simp add: polled_def s' d false_poll_def algebra_simps)
  finally show ?thesis .
qed

lemma poll_skip:
  assumes "0 < j \<longrightarrow> 0 \<le> check_interval \<and> check_interval \<le> sleep_max"
    and "\<forall>i<j. outcome f (env st) i = Inr False
               \<and> guard_elapsed f check_interval (env st) (now st - start_time) i < of_int timeout"
  shows "wait_with_timeout_loop f timeout check_interval description start_time st
       = wait_with_timeout_loop f timeout check_interval description start_time
           (polled f check_interval description start_time j st)"
  using assms
proof (induction j)
  case 0
  show ?case by (simp add: polled_def)
next
  case (Suc j)
  then have "wait_with_timeout_loop f timeout check_interval description start_time st
       = wait_with_timeout_loop f timeout check_interval description start_time
           (polled f check_interval description start_time j st)"
    by simp
  also have "\<dots> = wait_with_timeout_loop f timeout check_interval description start_time
           (polled f check_interval description start_time (Suc j) st)"
    using Suc.prems by (intro poll_step) auto
  finally show ?case .
qed

lemma calls_false_polls:
  "calls (concat (map (false_poll description check_interval f s e0) [0..<j])) = j"
  by (induction j) (simp_all add: calls_append false_poll_def progress_15_def calls_simps)

lemma sleeps_false_polls:
  "sleeps (concat (map (false_poll description check_interval f s e0) [0..<j])) = replicate j check_interval"
  by (induction j) (simp_all add: sleeps_append false_poll_def progress_15_def replicate_append_same)

lemma wait_with_timeout_skip:
  assumes "0 < j \<longrightarrow> 0 \<le> check_interval \<and> check_interval \<le> sleep_max"
    and "\<forall>i<j. outcome f (env st) i = Inr False
               \<and> guard_elapsed f check_interval (env st) 0 i < of_int timeout"
  shows "wait_with_timeout f timeout check_interval description st
       = wait_with_timeout_loop f timeout check_interval description (now st)
           (polled f check_interval description (now st) j
              (st\<lparr>trace := trace st @ [Print (WORKING @ '' '' @ waiting_msg description timeout)]\<rparr>))"
proof -
  let ?st1 = "st\<lparr>trace := trace st @ [Print (WORKING @ '' '' @ waiting_msg description timeout)]\<rparr>"
  have "\<forall>i<j. outcome f (env ?st1) i = Inr False
          \<and> guard_elapsed f check_interval (env ?st1) (now ?st1 - now st) i < of_int timeout"
    using assms(2) by simp
  from poll_skip[OF assms(1) this, of description]
  show ?thesis by (simp add: wait_with_timeout_def print_status_None)
qed

text \<open>
  C4. Let timeout and interval be positive, let the predicate be false on its first
  \<open>j\<close> evaluations and true on the next, and let that poll happen: the loop test before
  each of the polls \<open>0, \<dots>, j\<close> reads an elapsed time below the timeout, and the interval
  is a length \<^verbatim>\<open>time.sleep\<close> accepts if there is a sleep before it. Then
  \<^verbatim>\<open>wait_with_timeout\<close> returns \<^verbatim>\<open>True\<close> at that poll: the trace ends with the
  evaluation and the success line, the \<open>j\<close> sleeps all come before it, and the elapsed time
  is the \<open>j\<close> intervals slept plus the time the \<open>j + 1\<close> evaluations took. For a
  predicate first true on its third check, with interval \<open>1\<close> and a quarter of a time unit
  for each evaluation, that is \<open>2.75\<close>.
\<close>

theorem wait_with_timeout_first_true:
  assumes "0 < timeout" and "0 < check_interval"
    and "0 < j \<longrightarrow> check_interval \<le> sleep_max"
    and "\<forall>i<j. outcome condition_func (env st) i = Inr False"
    and "outcome condition_func (env st) j = Inr True"
    and "\<forall>i\<le>j. guard_elapsed condition_func check_interval (env st) 0 i < of_int timeout"
  shows "\<exists>evs st'. wait_with_timeout condition_func timeout check_interval description st
                     = Some (Inr True, st')
           \<and> trace st' = trace st @ evs @ [Call, Print (SUCCESS @ '' '' @ completed_msg description)]
           \<and> calls evs = j \<and> sleeps evs = replicate j check_interval
           \<and> now st' = now st + busy condition_func (env st) (Suc j)
                          + of_int (int j * check_interval)"
proof -
  let ?st1 = "st\<lparr>trace := trace st @ [Print (WORKING @ '' '' @ waiting_msg description timeout)]\<rparr>"
  let ?stj = "polled condition_func check_interval description (now st) j ?st1"
  have skip: "wait_with_timeout condition_func timeout check_interval description st
       = wait_with_timeout_loop condition_func timeout check_interval description (now st) ?stj"
    using assms(2,3,4,6) by (intro wait_with_timeout_skip) auto
  obtain s' d where fe: "condition_func (env ?stj) = (Inr True, s', d)"
    using assms(5) by (cases "condition_func (env ?stj)") (auto simp: outcome_def polled_def)
  have d: "d = took condition_func (env st) j"
    using fe by (simp add: polled_def took_def)
  have lt: "now ?stj - now st < of_int timeout"
    using assms(6)[rule_format, of j] by (simp add: polled_def guard_elapsed_def)
  note run = skip[unfolded poll_true[of ?stj "now st" timeout condition_func s' d check_interval description, OF lt fe]]
  let ?evs = "Print (WORKING @ '' '' @ waiting_msg description timeout)
      # concat (map (false_poll description check_interval condition_func (env st) 0) [0..<j])"
  show ?thesis
    unfolding run
    apply (rule exI[of _ ?evs])
    apply (simp add: polled_def calls_simps calls_false_polls sleeps_false_polls d)
    done
qed

theorem wait_with_timeout_first_true_witness:
  "(0::int) < 60 \<and> (0::int) < 1 \<and> 1 \<le> sleep_max
   \<and> outcome (ready_at 3) (env w0) 0 = Inr False \<and> outcome (ready_at 3) (env w0) 1 = Inr False
   \<and> outcome (ready_at 3) (env w0) 2 = Inr True
   \<and> guard_elapsed (ready_at 3) 1 (env w0) 0 0 = 0
   \<and> guard_elapsed (ready_at 3) 1 (env w0) 0 1 = 5 / 4
   \<and> guard_elapsed (ready_at 3) 1 (env w0) 0 2 = 5 / 2
   \<and> (\<exists>evs st'. wait_with_timeout (ready_at 3) 60 1 ''service'' w0 = Some (Inr True, st')
         \<and> trace st' = evs @ [Call, Print ''[SUCCESS] service completed'']
         \<and> calls evs = 2 \<and> sleeps evs = [1, 1] \<and> now st' = 11 / 4)"
proof -
  have each: "outcome (ready_at 3) (env w0) 0 = Inr False" "outcome (ready_at 3) (env w0) 1 = Inr False"
    "outcome (ready_at 3) (env w0) 2 = Inr True"
    by (simp_all add: outcome_def env_after_ready_at ready_at_def w0_def del: env_after.simps)
  have g: "guard_elapsed (ready_at 3) 1 (env w0) 0 0 = 0"
    "guard_elapsed (ready_at 3) 1 (env w0) 0 1 = 5 / 4"
    "guard_elapsed (ready_at 3) 1 (env w0) 0 2 = 5 / 2"
    by (simp_all add: guard_elapsed_def busy_ready_at del: busy.simps)
  have range: "1 \<le> sleep_max" by (simp add: sleep_max_value)
  have before: "\<forall>i<2. outcome (ready_at 3) (env w0) i = Inr False"
    using each(1,2) by (auto simp: less_Suc_eq numeral_2_eq_2)
  have reach: "\<forall>i\<le>2. guard_elapsed (ready_at 3) 1 (env w0) 0 i < of_int 60"
  proof (intro allI impI)
    fix i :: nat assume "i \<le> 2"
    then have "i = 0 \<or> i = 1 \<or> i = 2" by auto
    then show "guard_elapsed (ready_at 3) 1 (env w0) 0 i < of_int 60" using g by auto
  qed
  have r: "replicate 2 (1::int) = [1, 1]" by (simp add: numeral_2_eq_2)
  from wait_with_timeout_first_true [of 60 1 2 "ready_at 3" w0 "''service''"] before each(3) reach range
  have "\<exists>evs st'. wait_with_timeout (ready_at 3) 60 1 ''service'' w0 = Some (Inr True, st')
         \<and> trace st' = evs @ [Call, Print ''[SUCCESS] service completed'']
         \<and> calls evs = 2 \<and> sleeps evs = [1, 1] \<and> now st' = 11 / 4"
    by (simp add: w0_def r SUCCESS_def completed_msg_def busy_ready_at del: busy.simps)
  with each g range show ?thesis by simp
qed

lemma busy_nonneg: "\<forall>i. 0 \<le> took f s i \<Longrightarrow> 0 \<le> busy f s j"
  by (induction j) (simp_all add: add_nonneg_nonneg)

lemma busy_zero: "\<forall>i. took f s i = 0 \<Longrightarrow> busy f s j = 0"
  by (induction j) simp_all

lemma ceiling_polls:
  fixes timeout check_interval :: int
  assumes "0 < timeout" "0 < check_interval"
  defines "n \<equiv> nat \<lceil>rat_of_int timeout / rat_of_int check_interval\<rceil>"
  shows "\<forall>i<n. int i * check_interval < timeout"
    and "timeout \<le> int n * check_interval"
    and "int n * check_interval < timeout + check_interval"
proof -
  let ?x = "rat_of_int timeout / rat_of_int check_interval"
  have c: "0 < rat_of_int check_interval" using assms(2) by simp
  have "0 < ?x" using assms(1) c by simp
  then have "- 1 < ?x" by linarith
  then have pos: "0 \<le> \<lceil>?x\<rceil>" by (simp add: zero_le_ceiling)
  then have n: "int n = \<lceil>?x\<rceil>" by (simp add: n_def)
  show "\<forall>i<n. int i * check_interval < timeout"
  proof (intro allI impI)
    fix i assume "i < n"
    then have "int i < \<lceil>?x\<rceil>" using n by linarith
    then have "rat_of_int (int i) < ?x" by (simp add: less_ceiling_iff)
    then have "rat_of_int (int i) * rat_of_int check_interval < rat_of_int timeout"
      using c by (simp add: pos_less_divide_eq)
    then have "rat_of_int (int i * check_interval) < rat_of_int timeout" by simp
    then show "int i * check_interval < timeout" by (simp only: of_int_less_iff)
  qed
  have "?x \<le> rat_of_int (int n)" unfolding n by (rule le_of_int_ceiling)
  then have "rat_of_int timeout \<le> rat_of_int (int n) * rat_of_int check_interval"
    using c by (simp add: pos_divide_le_eq)
  then have "rat_of_int timeout \<le> rat_of_int (int n * check_interval)" by simp
  then show "timeout \<le> int n * check_interval" by (simp only: of_int_le_iff)
  have "rat_of_int (int n) < ?x + 1" unfolding n using ceiling_correct[of ?x] by linarith
  then have "rat_of_int (int n) * rat_of_int check_interval < (?x + 1) * rat_of_int check_interval"
    using c by (simp only: mult_less_cancel_right_pos)
  also have "\<dots> = rat_of_int timeout + rat_of_int check_interval"
    using c by (simp add: algebra_simps)
  finally have "rat_of_int (int n * check_interval) < rat_of_int (timeout + check_interval)" by simp
  then show "int n * check_interval < timeout + check_interval" by (simp only: of_int_less_iff)
qed

lemma sluggish_run:
  "wait_with_timeout sluggish 3 1 ''service'' w0
       = Some (Inr False,
               \<lparr>env = 2, now = 5,
                trace = [Print ''[WORKING] Waiting for service (timeout: 3s)'',
                         Call, Sleep 1, Call, Sleep 1,
                         Print ''[ERROR] service timed out after 3s'']\<rparr>)"
proof -
  have strs: "str_int 3 = ''3''" by (simp add: str_int_def str_nat_digit digit_def)
  have g: "guard_elapsed sluggish 1 (env w0) 0 i = 5 * of_nat i / 2" for i
    by (simp add: guard_elapsed_def busy_sluggish field_simps del: busy.simps)
  have h: "\<forall>i<2. outcome sluggish (env w0) i = Inr False
               \<and> guard_elapsed sluggish 1 (env w0) 0 i < of_int 3"
  proof (intro allI impI)
    fix i :: nat assume "i < 2"
    then have "i = 0 \<or> i = 1" by auto
    then show "outcome sluggish (env w0) i = Inr False
               \<and> guard_elapsed sluggish 1 (env w0) 0 i < of_int 3"
      by (auto simp: g outcome_def sluggish_def)
  qed
  have ok: "0 < (2::nat) \<longrightarrow> (0::int) \<le> 1 \<and> 1 \<le> sleep_max"
    by (simp add: sleep_max_value)
  have up: "[0..<2] = [0, 1]" by (simp add: upt_rec)
  have fl: "\<lfloor>(3::rat) / 2\<rfloor> = 1" by (simp add: floor_eq_iff)
  have e0: "poll_elapsed sluggish 1 0 0 0 = 1" "poll_elapsed sluggish 1 0 0 (Suc 0) = 4"
    by (simp_all add: poll_elapsed_def busy_sluggish py_int_def fl del: busy.simps)
  show ?thesis
    unfolding wait_with_timeout_skip[OF ok h]
    by (subst poll_timeout)
       (simp_all add: polled_def up false_poll_def e0 progress_15_def env_after_sluggish
          busy_sluggish w0_def waiting_msg_def timed_out_msg_def strs WORKING_def ERROR_def
          del: busy.simps env_after.simps)
qed

lemma overlong_interval_run:
  "wait_with_timeout never 5 10000000000 ''service'' w0
       = Some (Inl (OverflowError ''timestamp too large to convert to C _PyTime_t''),
               \<lparr>env = 1, now = 0,
                trace = [Print ''[WORKING] Waiting for service (timeout: 5s)'', Call]\<rparr>)"
proof -
  let ?st1 = "\<lparr>env = 0::nat, now = 0, trace = [Print ''[WORKING] Waiting for service (timeout: 5s)'']\<rparr>"
  have strs: "str_int 5 = ''5''" by (simp add: str_int_def str_nat_digit digit_def)
  have a: "wait_with_timeout never 5 10000000000 ''service'' w0
      = wait_with_timeout_loop never 5 10000000000 ''service'' 0 ?st1"
    by (simp add: wait_with_timeout_def w0_def print_status_def waiting_msg_def strs WORKING_def)
  have guard: "now ?st1 - 0 < of_int 5" by simp
  have fe: "never (env ?st1) = (Inr False, 1, 0)" by (simp add: never_def)
  have err: "sleep_error 10000000000
      = Some (OverflowError ''timestamp too large to convert to C _PyTime_t'')"
    by (simp add: sleep_error_def sleep_max_value)
  show ?thesis
    unfolding a
    by (subst poll_false_sleep_raises[of ?st1 0 5 never 1 0 10000000000 _ "''service''", OF guard fe err])
       (simp add: progress_15_def py_int_def)
qed

text \<open>
  C5, as stated, fails. The loop compares the wall clock with the timeout, and the clock
  runs while the predicate is evaluated: a predicate that is always false and takes a time
  unit and a half is evaluated twice, not \<open>\<lceil>3 / 1\<rceil> = 3\<close> times, with timeout \<open>3\<close> and
  interval \<open>1\<close>. And with an interval of \<open>10000000000\<close>, positive but a length
  \<^verbatim>\<open>time.sleep\<close> refuses, \<^verbatim>\<open>wait_with_timeout\<close> raises \<^verbatim>\<open>OverflowError\<close> after
  the first evaluation and returns nothing.
\<close>

theorem wait_with_timeout_never_true_counterexample:
  "nat \<lceil>rat_of_int 3 / rat_of_int 1\<rceil> = 3
   \<and> wait_with_timeout sluggish 3 1 ''service'' w0
       = Some (Inr False,
               \<lparr>env = 2, now = 5,
                trace = [Print ''[WORKING] Waiting for service (timeout: 3s)'',
                         Call, Sleep 1, Call, Sleep 1,
                         Print ''[ERROR] service timed out after 3s'']\<rparr>)
   \<and> wait_with_timeout never 5 10000000000 ''service'' w0
       = Some (Inl (OverflowError ''timestamp too large to convert to C _PyTime_t''),
               \<lparr>env = 1, now = 0,
                trace = [Print ''[WORKING] Waiting for service (timeout: 5s)'', Call]\<rparr>)"
  using sluggish_run overlong_interval_run by simp

text \<open>
  C5, amended. Let the timeout be positive, the interval positive and a length
  \<^verbatim>\<open>time.sleep\<close> accepts, and the predicate false on every evaluation, each taking a
  non-negative time. Then \<^verbatim>\<open>wait_with_timeout\<close> returns \<^verbatim>\<open>False\<close> at the first
  loop test that reads an elapsed time of at least the timeout, after \<open>n\<close> evaluations,
  each followed by a sleep of one interval, with
  \<open>1 \<le> n \<le> \<lceil>timeout / check_interval\<rceil>\<close>; and \<open>n = \<lceil>timeout / check_interval\<rceil>\<close> when
  the evaluations take no time. With timeout \<open>5\<close>, interval \<open>2\<close> and an instantaneous
  predicate these are \<open>3\<close> evaluations and a return at elapsed time \<open>6\<close>.
\<close>

theorem wait_with_timeout_never_true:
  assumes "0 < timeout" and "0 < check_interval" and "check_interval \<le> sleep_max"
    and "\<forall>i. outcome condition_func (env st) i = Inr False"
    and "\<forall>i. 0 \<le> took condition_func (env st) i"
  shows "\<exists>n st'. wait_with_timeout condition_func timeout check_interval description st
                   = Some (Inr False, st')
           \<and> calls (trace st') = calls (trace st) + n
           \<and> sleeps (trace st') = sleeps (trace st) @ replicate n check_interval
           \<and> 1 \<le> n \<and> n \<le> nat \<lceil>rat_of_int timeout / rat_of_int check_interval\<rceil>
           \<and> ((\<forall>i. took condition_func (env st) i = 0) \<longrightarrow>
                 n = nat \<lceil>rat_of_int timeout / rat_of_int check_interval\<rceil>)
           \<and> (\<forall>i<n. guard_elapsed condition_func check_interval (env st) 0 i < of_int timeout)
           \<and> of_int timeout \<le> guard_elapsed condition_func check_interval (env st) 0 n
           \<and> now st' = now st + guard_elapsed condition_func check_interval (env st) 0 n"
proof -
  let ?G = "guard_elapsed condition_func check_interval (env st) 0"
  define N where "N = nat \<lceil>rat_of_int timeout / rat_of_int check_interval\<rceil>"
  note c = ceiling_polls[OF assms(1,2), folded N_def]
  have lower: "rat_of_int (int i * check_interval) \<le> ?G i" for i
    using busy_nonneg[OF assms(5), of i] by (simp add: guard_elapsed_def)
  have "rat_of_int timeout \<le> rat_of_int (int N * check_interval)"
    using c(2) by (simp only: of_int_le_iff)
  then have PN: "of_int timeout \<le> ?G N" using lower[of N] by linarith
  define n where "n = (LEAST n. of_int timeout \<le> ?G n)"
  have Pn: "of_int timeout \<le> ?G n" unfolding n_def using PN by (rule LeastI)
  have below: "?G i < of_int timeout" if "i < n" for i
    using not_less_Least[of i "\<lambda>n. of_int timeout \<le> ?G n"] that by (simp add: n_def not_le)
  have nN: "n \<le> N" unfolding n_def using PN by (rule Least_le)
  have "?G 0 < of_int timeout" using assms(1) by (simp add: guard_elapsed_def)
  then have n1: "1 \<le> n" using Pn by (cases n) auto
  have exact: "n = N" if "\<forall>i. took condition_func (env st) i = 0"
  proof (rule ccontr)
    assume "n \<noteq> N"
    then have "n < N" using nN by simp
    then have "int n * check_interval < timeout" using c(1) by simp
    then have "rat_of_int (int n * check_interval) < rat_of_int timeout"
      by (simp only: of_int_less_iff)
    moreover have "?G n = rat_of_int (int n * check_interval)"
      using busy_zero[OF that, of n] by (simp add: guard_elapsed_def)
    ultimately show False using Pn by simp
  qed
  let ?st1 = "st\<lparr>trace := trace st @ [Print (WORKING @ '' '' @ waiting_msg description timeout)]\<rparr>"
  let ?stn = "polled condition_func check_interval description (now st) n ?st1"
  have skip: "wait_with_timeout condition_func timeout check_interval description st
       = wait_with_timeout_loop condition_func timeout check_interval description (now st) ?stn"
    using assms(2,3,4) below by (intro wait_with_timeout_skip) auto
  have ge: "\<not> now ?stn - now st < of_int timeout"
    using Pn by (simp add: polled_def guard_elapsed_def not_less)
  note run = skip[unfolded poll_timeout[of ?stn "now st" timeout condition_func check_interval description, OF ge]]
  show ?thesis
    unfolding run N_def[symmetric]
    apply (rule exI[of _ n])
    using n1 nN exact Pn below
    apply (simp add: polled_def calls_append sleeps_append calls_simps calls_false_polls
        sleeps_false_polls guard_elapsed_def)
    done
qed

theorem wait_with_timeout_never_true_witness:
  "(0::int) < 5 \<and> (0::int) < 2 \<and> 2 \<le> sleep_max
   \<and> (\<forall>i. outcome never (env w0) i = Inr False) \<and> (\<forall>i. took never (env w0) i = 0)
   \<and> (\<exists>st'. wait_with_timeout never 5 2 ''service'' w0 = Some (Inr False, st')
         \<and> calls (trace st') = 3 \<and> sleeps (trace st') = [2, 2, 2] \<and> now st' = 6)"
proof -
  have always: "\<forall>i. outcome never (env w0) i = Inr False"
    by (simp add: outcome_def never_def)
  have instant: "\<forall>i. took never (env w0) i = 0"
    by (simp add: took_def never_def)
  have range: "2 \<le> sleep_max" by (simp add: sleep_max_value)
  have n: "nat \<lceil>rat_of_int 5 / rat_of_int 2\<rceil> = 3"
  proof -
    have "\<lceil>(5::rat) / 2\<rceil> = 3" by (simp add: ceiling_eq_iff)
    then show ?thesis by simp
  qed
  have r: "replicate 3 (2::int) = [2, 2, 2]" by (simp add: numeral_3_eq_3)
  from wait_with_timeout_never_true [of 5 2 never w0 "''service''"] always instant range
  obtain k st' where k: "wait_with_timeout never 5 2 ''service'' w0 = Some (Inr False, st')"
    "calls (trace st') = calls (trace w0) + k"
    "sleeps (trace st') = sleeps (trace w0) @ replicate k 2"
    "k = nat \<lceil>rat_of_int 5 / rat_of_int 2\<rceil>"
    "now st' = now w0 + guard_elapsed never 2 (env w0) 0 k"
    by auto
  have "calls (trace st') = 3 \<and> sleeps (trace st') = [2, 2, 2] \<and> now st' = 6"
    using k(2,3,5) unfolding k(4) n
    by (simp add: w0_def r calls_simps guard_elapsed_def busy_never del: busy.simps)
  with k(1) always instant range show ?thesis by simp
qed

text \<open>
  C7. Let the predicate be false on its first \<open>j\<close> evaluations and raise \<open>e\<close> on the
  next, and let that poll happen: the loop test before each of the polls \<open>0, \<dots>, j\<close>
  reads an elapsed time below the timeout, and the sleeps before it complete. Then
  \<^verbatim>\<open>wait_with_timeout\<close> raises \<open>e\<close>, whatever its class, and the raising evaluation is
  the last event of the trace: no evaluation, sleep or printed line follows it.
\<close>

theorem wait_with_timeout_raises:
  assumes "0 < j \<longrightarrow> 0 < check_interval \<and> check_interval \<le> sleep_max"
    and "\<forall>i<j. outcome condition_func (env st) i = Inr False"
    and "outcome condition_func (env st) j = Inl e"
    and "\<forall>i\<le>j. guard_elapsed condition_func check_interval (env st) 0 i < of_int timeout"
  shows "\<exists>evs st'. wait_with_timeout condition_func timeout check_interval description st
                     = Some (Inl e, st')
           \<and> trace st' = trace st @ evs @ [Call]
           \<and> calls evs = j \<and> sleeps evs = replicate j check_interval
           \<and> env st' = env_after condition_func (env st) (Suc j)"
proof -
  let ?st1 = "st\<lparr>trace := trace st @ [Print (WORKING @ '' '' @ waiting_msg description timeout)]\<rparr>"
  let ?stj = "polled condition_func check_interval description (now st) j ?st1"
  have skip: "wait_with_timeout condition_func timeout check_interval description st
       = wait_with_timeout_loop condition_func timeout check_interval description (now st) ?stj"
    using assms(1,2,4) by (intro wait_with_timeout_skip) auto
  obtain s' d where fe: "condition_func (env ?stj) = (Inl e, s', d)"
    using assms(3) by (cases "condition_func (env ?stj)") (auto simp: outcome_def polled_def)
  have s': "s' = env_after condition_func (env st) (Suc j)"
    using fe by (simp add: polled_def)
  have lt: "now ?stj - now st < of_int timeout"
    using assms(4)[rule_format, of j] by (simp add: polled_def guard_elapsed_def)
  note run = skip[unfolded poll_raise[of ?stj "now st" timeout condition_func e s' d check_interval description, OF lt fe]]
  let ?evs = "Print (WORKING @ '' '' @ waiting_msg description timeout)
      # concat (map (false_poll description check_interval condition_func (env st) 0) [0..<j])"
  show ?thesis
    unfolding run
    apply (rule exI[of _ ?evs])
    using s' apply (simp add: polled_def calls_simps calls_false_polls sleeps_false_polls)
    done
qed

theorem wait_with_timeout_raises_witness:
  "(0::int) < 5 \<and> 5 \<le> sleep_max \<and> outcome (raising_at 2) (env w0) 0 = Inr False
   \<and> outcome (raising_at 2) (env w0) 1 = Inl (OtherException ''probe failed'')
   \<and> guard_elapsed (raising_at 2) 5 (env w0) 0 0 = 0
   \<and> guard_elapsed (raising_at 2) 5 (env w0) 0 1 = 21 / 4
   \<and> (\<exists>evs st'. wait_with_timeout (raising_at 2) 60 5 ''service'' w0
                    = Some (Inl (OtherException ''probe failed''), st')
         \<and> trace st' = evs @ [Call] \<and> calls evs = 1 \<and> sleeps evs = [5] \<and> env st' = 2)"
proof -
  have each: "outcome (raising_at 2) (env w0) 0 = Inr False"
    "outcome (raising_at 2) (env w0) 1 = Inl (OtherException ''probe failed'')"
    by (simp_all add: outcome_def env_after_raising_at raising_at_def w0_def del: env_after.simps)
  have g: "guard_elapsed (raising_at 2) 5 (env w0) 0 0 = 0"
    "guard_elapsed (raising_at 2) 5 (env w0) 0 1 = 21 / 4"
    by (simp_all add: guard_elapsed_def busy_raising_at del: busy.simps)
  have range: "5 \<le> sleep_max" by (simp add: sleep_max_value)
  have before: "\<forall>i<1. outcome (raising_at 2) (env w0) i = Inr False"
    using each(1) by simp
  have reach: "\<forall>i\<le>1. guard_elapsed (raising_at 2) 5 (env w0) 0 i < of_int 60"
  proof (intro allI impI)
    fix i :: nat assume "i \<le> 1"
    then have "i = 0 \<or> i = 1" by auto
    then show "guard_elapsed (raising_at 2) 5 (env w0) 0 i < of_int 60" using g by auto
  qed
  from wait_with_timeout_raises [of 1 5 "raising_at 2" w0 "OtherException ''probe failed''" 60 "''service''"]
    before each(2) reach range
  have "\<exists>evs st'. wait_with_timeout (raising_at 2) 60 5 ''service'' w0
                    = Some (Inl (OtherException ''probe failed''), st')
         \<and> trace st' = evs @ [Call] \<and> calls evs = 1 \<and> sleeps evs = [5] \<and> env st' = 2"
    by (simp add: w0_def env_after_raising_at del: env_after.simps flip: numeral_2_eq_2)
  with each g range show ?thesis by simp
qed

lemma poll_returns_within:
  assumes "0 < check_interval" "\<forall>s. 0 \<le> snd (snd (f s))"
    and "of_int timeout \<le> now st - start_time + of_int (int k * check_interval)"
  shows "\<exists>r st' rest. wait_with_timeout_loop f timeout check_interval description start_time st
                         = Some (r, st') \<and> trace st' = trace st @ rest"
  using assms(3)
proof (induction k arbitrary: st)
  case 0
  then have "\<not> now st - start_time < of_int timeout" by simp
  from poll_timeout[OF this] show ?case by simp
next
  case (Suc k)
  show ?case
  proof (cases "now st - start_time < of_int timeout")
    case False
    from poll_timeout[OF this] show ?thesis by simp
  next
    case guard: True
    obtain r s' d where fe: "f (env st) = (r, s', d)" by (cases "f (env st)")
    have d: "0 \<le> d" using assms(2)[rule_format, of "env st"] fe by simp
    show ?thesis
    proof (cases r)
      case (Inl e)
      with poll_raise[of st start_time timeout f e s' d check_interval description, OF guard] fe show ?thesis by simp
    next
      case (Inr b)
      show ?thesis
      proof (cases b)
        case True
        with poll_true[of st start_time timeout f s' d check_interval description, OF guard] fe Inr show ?thesis by simp
      next
        case False
        then have fe': "f (env st) = (Inr False, s', d)" using fe Inr by simp
        show ?thesis
        proof (cases "sleep_error check_interval")
          case (Some e)
          from poll_false_sleep_raises[of st start_time timeout f s' d check_interval e description, OF guard fe' Some]
          show ?thesis by simp
        next
          case None
          let ?st3 = "st\<lparr>env := s', now := now st + d + of_int check_interval,
               trace := trace st @ Call # progress_15 description (py_int (now st + d - start_time))
                          @ [Sleep check_interval]\<rparr>"
          have "of_int timeout \<le> now ?st3 - start_time + of_int (int k * check_interval)"
            using Suc.prems d by (simp add: algebra_simps)
          from Suc.IH[OF this] obtain r' st' rest where
            "wait_with_timeout_loop f timeout check_interval description start_time ?st3
               = Some (r', st')" "trace st' = trace ?st3 @ rest"
            by blast
          then show ?thesis
            unfolding poll_false[of st start_time timeout f s' d check_interval description, OF guard fe' None] by simp
        qed
      qed
    qed
  qed
qed

lemma poll_returns:
  assumes "0 < check_interval" "\<forall>s. 0 \<le> snd (snd (f s))"
  shows "\<exists>r st' rest. wait_with_timeout_loop f timeout check_interval description start_time st
                         = Some (r, st') \<and> trace st' = trace st @ rest"
proof -
  define x where "x = (of_int timeout - (now st - start_time)) / rat_of_int check_interval"
  have c: "0 < rat_of_int check_interval" using assms(1) by simp
  have "x \<le> of_int \<lceil>x\<rceil>" by (rule le_of_int_ceiling)
  also have "\<dots> \<le> rat_of_int (int (nat \<lceil>x\<rceil>))" by simp
  finally have "x * rat_of_int check_interval \<le> rat_of_int (int (nat \<lceil>x\<rceil>)) * rat_of_int check_interval"
    using c by (simp only: mult_le_cancel_right_pos)
  moreover have "x * rat_of_int check_interval = of_int timeout - (now st - start_time)"
    using c by (simp add: x_def)
  ultimately have "of_int timeout
      \<le> now st - start_time + rat_of_int (int (nat \<lceil>x\<rceil>)) * rat_of_int check_interval"
    by linarith
  then have "of_int timeout \<le> now st - start_time + of_int (int (nat \<lceil>x\<rceil>) * check_interval)"
    by (simp only: of_int_mult)
  from poll_returns_within[OF assms this] show ?thesis .
qed

section \<open>Properties of the container-log poller\<close>



lemma logs_ready:
  assumes "now st - start_time < of_int timeout"
    and "container_logs client container (env st) = (Inr logs, s', d)"
    and "any_ready ready_messages logs"
  shows "wait_for_container_loop client container container_name ready_messages timeout
           check_interval start_time st
       = Some (Inr True, st\<lparr>env := s', now := now st + d,
                 trace := trace st @ [Call, Print (SUCCESS @ '' '' @ is_ready_msg container_name)]\<rparr>)"
  using assms by (subst wait_for_container_loop.simps) (simp add: call_def print_status_None)

lemma logs_raise:
  assumes "now st - start_time < of_int timeout"
    and "container_logs client container (env st) = (Inl e, s', d)"
  shows "wait_for_container_loop client container container_name ready_messages timeout
           check_interval start_time st
       = Some (Inl e, st\<lparr>env := s', now := now st + d, trace := trace st @ [Call]\<rparr>)"
  using assms by (subst wait_for_container_loop.simps) (simp add: call_def)

lemma logs_timeout:
  assumes "\<not> now st - start_time < of_int timeout"
  shows "wait_for_container_loop client container container_name ready_messages timeout
           check_interval start_time st
       = Some (Inr False, st\<lparr>trace := trace st
                 @ [Print (ERROR @ '' '' @ did_not_start_msg container_name timeout)]\<rparr>)"
  using assms by (subst wait_for_container_loop.simps) (simp add: print_status_None)

lemma logs_not_ready:
  assumes "now st - start_time < of_int timeout"
    and "container_logs client container (env st) = (Inr logs, s', d)"
    and "\<not> any_ready ready_messages logs"
    and "sleep_error check_interval = None"
  shows "wait_for_container_loop client container container_name ready_messages timeout
           check_interval start_time st
       = wait_for_container_loop client container container_name ready_messages timeout
           check_interval start_time
           (st\<lparr>env := s', now := now st + d + of_int check_interval,
               trace := trace st @ Call # progress_10 (py_int (now st + d - start_time))
                          @ [Sleep check_interval]\<rparr>)"
  using assms
  by (subst wait_for_container_loop.simps)
     (simp add: call_def print_status_None sleep_def Let_def progress_10_def)

lemma logs_not_ready_sleep_raises:
  assumes "now st - start_time < of_int timeout"
    and "container_logs client container (env st) = (Inr logs, s', d)"
    and "\<not> any_ready ready_messages logs"
    and "sleep_error check_interval = Some e"
  shows "wait_for_container_loop client container container_name ready_messages timeout
           check_interval start_time st
       = Some (Inl e, st\<lparr>env := s', now := now st + d,
               trace := trace st @ Call # progress_10 (py_int (now st + d - start_time))\<rparr>)"
  using assms
  by (subst wait_for_container_loop.simps)
     (simp add: call_def print_status_None sleep_def Let_def progress_10_def)

lemma logs_step:
  assumes "0 \<le> check_interval" "check_interval \<le> sleep_max"
    and "outcome (container_logs client container) (env st) j = Inr logs"
    and "\<not> any_ready ready_messages logs"
    and "guard_elapsed (container_logs client container) check_interval (env st)
           (now st - start_time) j < of_int timeout"
  shows "wait_for_container_loop client container container_name ready_messages timeout
           check_interval start_time
           (logs_polled (container_logs client container) check_interval start_time j st)
       = wait_for_container_loop client container container_name ready_messages timeout
           check_interval start_time
           (logs_polled (container_logs client container) check_interval start_time (Suc j) st)"
proof -
  let ?f = "container_logs client container"
  let ?stj = "logs_polled ?f check_interval start_time j st"
  obtain s' d where fe: "?f (env ?stj) = (Inr logs, s', d)"
    using assms(3) by (cases "?f (env ?stj)") (auto simp: outcome_def logs_polled_def)
  have s': "s' = env_after ?f (env st) (Suc j)" and d: "d = took ?f (env st) j"
    using fe by (simp_all add: logs_polled_def took_def)
  have guard: "now ?stj - start_time < of_int timeout"
    using assms(5) by (simp add: logs_polled_def guard_elapsed_def algebra_simps)
  have ok: "sleep_error check_interval = None"
    using assms(1,2) by (simp add: sleep_error_None)
  have el: "py_int (now ?stj + d - start_time)
          = poll_elapsed ?f check_interval (env st) (now st - start_time) j"
    by (simp add: poll_elapsed_def logs_polled_def d algebra_simps)
  have "wait_for_container_loop client container container_name ready_messages timeout
           check_interval start_time ?stj
      = wait_for_container_loop client container container_name ready_messages timeout
           check_interval start_time
           (?stj\<lparr>env := s', now := now ?stj + d + of_int check_interval,
               trace := trace ?stj @ Call # progress_10 (py_int (now ?stj + d - start_time))
                          @ [Sleep check_interval]\<rparr>)"
    using guard fe assms(4) ok by (rule logs_not_ready)
  also have "?stj\<lparr>env := s', now := now ?stj + d + of_int check_interval,
               trace := trace ?stj @ Call # progress_10 (py_int (now ?stj + d - start_time))
                          @ [Sleep check_interval]\<rparr>
           = logs_polled ?f check_interval start_time (Suc j) st"
    unfolding el by (simp add: logs_polled_def s' d not_ready_poll_def algebra_simps)
  finally show ?thesis .
qed

lemma logs_skip:
  assumes "0 < j \<longrightarrow> 0 \<le> check_interval \<and> check_interval \<le> sleep_max"
    and "\<forall>i<j. (\<exists>logs. outcome (container_logs client container) (env st) i = Inr logs
                     \<and> \<not> any_ready ready_messages logs)
               \<and> guard_elapsed (container_logs client container) check_interval (env st)
                    (now st - start_time) i < of_int timeout"
  shows "wait_for_container_loop client container container_name ready_messages timeout
           check_interval start_time st
       = wait_for_container_loop client container container_name ready_messages timeout
           check_interval start_time
           (logs_polled (container_logs client container) check_interval start_time j st)"
  using assms
proof (induction j)
  case 0
  show ?case by (simp add: logs_polled_def)
next
  case (Suc j)
  then have "wait_for_container_loop client container container_name ready_messages timeout
           check_interval start_time st
       = wait_for_container_loop client container container_name ready_messages timeout
           check_interval start_time
           (logs_polled (container_logs client container) check_interval start_time j st)"
    by simp
  also have "\<dots> = wait_for_container_loop client container container_name ready_messages timeout
           check_interval start_time
           (logs_polled (container_logs client container) check_interval start_time (Suc j) st)"
  proof -
    from Suc.prems obtain logs where
      "outcome (container_logs client container) (env st) j = Inr logs"
      "\<not> any_ready ready_messages logs"
      "guard_elapsed (container_logs client container) check_interval (env st)
         (now st - start_time) j < of_int timeout"
      by auto
    then show ?thesis using Suc.prems(1) by (intro logs_step) auto
  qed
  finally show ?case .
qed

lemma logs_returns_within:
  assumes "0 < check_interval" "\<forall>s. 0 \<le> snd (snd (container_logs client container s))"
    and "of_int timeout \<le> now st - start_time + of_int (int k * check_interval)"
  shows "\<exists>r st' rest. wait_for_container_loop client container container_name ready_messages
                         timeout check_interval start_time st
                         = Some (r, st') \<and> trace st' = trace st @ rest"
  using assms(3)
proof (induction k arbitrary: st)
  case 0
  then have "\<not> now st - start_time < of_int timeout" by simp
  then show ?case by (simp add: logs_timeout)
next
  case (Suc k)
  show ?case
  proof (cases "now st - start_time < of_int timeout")
    case False
    then show ?thesis by (simp add: logs_timeout)
  next
    case guard: True
    let ?f = "container_logs client container"
    obtain r s' d where fe: "?f (env st) = (r, s', d)" by (cases "?f (env st)")
    have d: "0 \<le> d" using assms(2)[rule_format, of "env st"] fe by simp
    show ?thesis
    proof (cases r)
      case (Inl e)
      with logs_raise[of st start_time timeout client container e s' d container_name
          ready_messages check_interval, OF guard] fe
      show ?thesis by simp
    next
      case (Inr logs)
      then have fe': "?f (env st) = (Inr logs, s', d)" using fe by simp
      show ?thesis
      proof (cases "any_ready ready_messages logs")
        case True
        from logs_ready[of st start_time timeout client container logs s' d ready_messages
            container_name check_interval, OF guard fe' True]
        show ?thesis by simp
      next
        case False
        show ?thesis
        proof (cases "sleep_error check_interval")
          case (Some e)
          from logs_not_ready_sleep_raises[of st start_time timeout client container logs s' d
              ready_messages check_interval e container_name, OF guard fe' False Some]
          show ?thesis by simp
        next
          case None
          let ?st3 = "st\<lparr>env := s', now := now st + d + of_int check_interval,
               trace := trace st @ Call # progress_10 (py_int (now st + d - start_time))
                          @ [Sleep check_interval]\<rparr>"
          have "of_int timeout \<le> now ?st3 - start_time + of_int (int k * check_interval)"
            using Suc.prems d by (simp add: algebra_simps)
          from Suc.IH[OF this] obtain r' st' rest where
            "wait_for_container_loop client container container_name ready_messages timeout
               check_interval start_time ?st3 = Some (r', st')" "trace st' = trace ?st3 @ rest"
            by blast
          then show ?thesis
            unfolding logs_not_ready[of st start_time timeout client container logs s' d
              ready_messages check_interval container_name, OF guard fe' False None]
            by simp
        qed
      qed
    qed
  qed
qed

lemma logs_returns:
  assumes "0 < check_interval" "\<forall>s. 0 \<le> snd (snd (container_logs client container s))"
  shows "\<exists>r st' rest. wait_for_container_loop client container container_name ready_messages
                         timeout check_interval start_time st
                         = Some (r, st') \<and> trace st' = trace st @ rest"
proof -
  define x where "x = (of_int timeout - (now st - start_time)) / rat_of_int check_interval"
  have c: "0 < rat_of_int check_interval" using assms(1) by simp
  have "x \<le> of_int \<lceil>x\<rceil>" by (rule le_of_int_ceiling)
  also have "\<dots> \<le> rat_of_int (int (nat \<lceil>x\<rceil>))" by simp
  finally have "x * rat_of_int check_interval \<le> rat_of_int (int (nat \<lceil>x\<rceil>)) * rat_of_int check_interval"
    using c by (simp only: mult_le_cancel_right_pos)
  moreover have "x * rat_of_int check_interval = of_int timeout - (now st - start_time)"
    using c by (simp add: x_def)
  ultimately have "of_int timeout
      \<le> now st - start_time + rat_of_int (int (nat \<lceil>x\<rceil>)) * rat_of_int check_interval"
    by linarith
  then have "of_int timeout \<le> now st - start_time + of_int (int (nat \<lceil>x\<rceil>) * check_interval)"
    by (simp only: of_int_mult)
  from logs_returns_within[OF assms this] show ?thesis .
qed

lemma wait_for_container_handles:
  assumes "wait_for_container_try client container_name ready_messages timeout check_interval st
             = Some (Inl e, st1)"
    and "is_Exception e"
  shows "wait_for_container client container_name ready_messages timeout check_interval st
       = Some (Inr False, st1\<lparr>trace := trace st1 @ map Print (error_report container_name e)\<rparr>)"
  using assms by (cases e) (simp_all add: wait_for_container_def print_status_def)

lemma wait_for_container_uncaught:
  assumes "wait_for_container_try client container_name ready_messages timeout check_interval st
             = Some (Inl e, st1)"
    and "\<not> is_Exception e"
  shows "wait_for_container client container_name ready_messages timeout check_interval st
       = Some (Inl e, st1)"
  using assms by (cases e) (simp_all add: wait_for_container_def)

lemma wait_for_container_returned:
  assumes "wait_for_container_try client container_name ready_messages timeout check_interval st
             = Some (Inr b, st1)"
  shows "wait_for_container client container_name ready_messages timeout check_interval st
       = Some (Inr b, st1)"
  using assms by (simp add: wait_for_container_def)


lemma wait_for_container_extends:
  assumes "wait_for_container_try client container_name ready_messages timeout check_interval st
             = Some (r0, st0)"
  shows "\<exists>r st' ls. wait_for_container client container_name ready_messages timeout
                       check_interval st = Some (r, st')
                    \<and> trace st' = trace st0 @ map Print ls"
proof (cases r0)
  case (Inr b)
  from wait_for_container_returned[OF assms[unfolded Inr]] show ?thesis
    by (intro exI[of _ "Inr b"] exI[of _ st0] exI[of _ "[]"]) simp
next
  case (Inl e)
  show ?thesis
  proof (cases "is_Exception e")
    case True
    from wait_for_container_handles[OF assms[unfolded Inl] True] show ?thesis
      by (intro exI[of _ "Inr False"] exI[of _ "st0\<lparr>trace := trace st0 @ map Print (error_report container_name e)\<rparr>"]
          exI[of _ "error_report container_name e"]) simp
  next
    case False
    from wait_for_container_uncaught[OF assms[unfolded Inl] False] show ?thesis
      by (intro exI[of _ "Inl e"] exI[of _ st0] exI[of _ "[]"]) simp
  qed
qed




section \<open>Progress notifications\<close>

text \<open>
  C8, as stated, fails for the generic variant. With a predicate that is never true, timeout
  \<open>1\<close> and interval \<open>1\<close>, the only poll happens at elapsed time \<open>0\<close>, a multiple of
  \<open>15\<close>, and no "still waiting" line is printed: the condition in
  \<^verbatim>\<open>wait_with_timeout\<close> is \<^verbatim>\<open>elapsed % 15 == 0 and elapsed > 0\<close>.
\<close>

theorem still_waiting_at_zero_counterexample:
  "py_int (0 - 0) mod 15 = 0
   \<and> wait_with_timeout never 1 1 ''service'' w0
       = Some (Inr False,
               \<lparr>env = 1, now = 1,
                trace = [Print ''[WORKING] Waiting for service (timeout: 1s)'',
                         Call, Sleep 1,
                         Print ''[ERROR] service timed out after 1s'']\<rparr>)"
proof -
  have strs: "str_int 1 = ''1''" by (simp add: str_int_def str_nat_digit digit_def)
  have h: "\<forall>i<1. outcome never (env w0) i = Inr False
               \<and> guard_elapsed never 1 (env w0) 0 i < of_int 1"
    by (simp add: outcome_def never_def guard_elapsed_def)
  have ok: "0 < (1::nat) \<longrightarrow> (0::int) \<le> 1 \<and> 1 \<le> sleep_max"
    by (simp add: sleep_max_value)
  have e0: "poll_elapsed never 1 0 0 0 = 0"
    by (simp add: poll_elapsed_def took_def never_def py_int_def)
  have "wait_with_timeout never 1 1 ''service'' w0
       = Some (Inr False,
               \<lparr>env = 1, now = 1,
                trace = [Print ''[WORKING] Waiting for service (timeout: 1s)'',
                         Call, Sleep 1,
                         Print ''[ERROR] service timed out after 1s'']\<rparr>)"
    unfolding wait_with_timeout_skip[OF ok h]
    by (subst poll_timeout)
       (simp_all add: polled_def false_poll_def e0 progress_15_def took_def never_def
          w0_def waiting_msg_def timed_out_msg_def strs WORKING_def ERROR_def)
  then show ?thesis by (simp add: py_int_def)
qed

text \<open>
  C8, amended. Let the check interval be positive and a length \<^verbatim>\<open>time.sleep\<close> accepts,
  and let no evaluation take a negative time. Then the poller returns, and if its first
  \<open>j\<close> polls found the predicate false (no ready message in the logs), each behind a loop
  test that read an elapsed time below the timeout, its trace holds for each of them, in
  order: the evaluation; then a "still waiting" line exactly when the elapsed time read
  after the evaluation, rounded down to whole time units, is a positive multiple of
  \<open>15\<close> (generic variant) or a multiple of \<open>10\<close>, zero included (container-log
  variant); then the sleep of one check interval.
\<close>

theorem still_waiting_notifications:
  fixes condition_func :: "('s, bool) callable" and st :: "'s world"
    and client :: "('t, 'c) docker_client" and stc :: "'t world"
  assumes "0 < check_interval" and "check_interval \<le> sleep_max"
  shows
    "((\<forall>s. 0 \<le> snd (snd (condition_func s)))
      \<and> (\<forall>i<j. outcome condition_func (env st) i = Inr False
                \<and> guard_elapsed condition_func check_interval (env st) 0 i < of_int timeout) \<longrightarrow>
      (\<exists>r st' rest.
         wait_with_timeout condition_func timeout check_interval description st = Some (r, st')
         \<and> trace st' = trace st
              @ Print (WORKING @ '' '' @ waiting_msg description timeout)
              # concat (map
                  (\<lambda>i. Call #
                     (if poll_elapsed condition_func check_interval (env st) 0 i mod 15 = 0
                         \<and> 0 < poll_elapsed condition_func check_interval (env st) 0 i
                      then [Print (WORKING @ '' '' @ still_waiting_for_msg description
                              (poll_elapsed condition_func check_interval (env st) 0 i))]
                      else [])
                     @ [Sleep check_interval])
                  [0..<j])
              @ rest))
     \<and>
     ((\<forall>s. 0 \<le> snd (snd (container_logs client container s)))
      \<and> containers_get client container_name (env stc) = (Inr container, sc, dc)
      \<and> (\<forall>i<j. (\<exists>logs. outcome (container_logs client container) sc i = Inr logs
                      \<and> \<not> any_ready ready_messages logs)
                \<and> guard_elapsed (container_logs client container) check_interval sc 0 i
                     < of_int timeout) \<longrightarrow>
      (\<exists>r st' rest.
         wait_for_container client container_name ready_messages timeout check_interval stc
           = Some (r, st')
         \<and> trace st' = trace stc
              @ Call # Print (WORKING @ '' '' @ waiting_to_start_msg container_name timeout)
              # concat (map
                  (\<lambda>i. Call #
                     (if poll_elapsed (container_logs client container) check_interval sc 0 i
                           mod 10 = 0
                      then [Print (WORKING @ '' '' @ still_waiting_msg
                              (poll_elapsed (container_logs client container) check_interval sc 0 i))]
                      else [])
                     @ [Sleep check_interval])
                  [0..<j])
              @ rest))"
proof (intro conjI impI)
  assume a: "(\<forall>s. 0 \<le> snd (snd (condition_func s)))
      \<and> (\<forall>i<j. outcome condition_func (env st) i = Inr False
                \<and> guard_elapsed condition_func check_interval (env st) 0 i < of_int timeout)"
  let ?st1 = "st\<lparr>trace := trace st @ [Print (WORKING @ '' '' @ waiting_msg description timeout)]\<rparr>"
  let ?stj = "polled condition_func check_interval description (now st) j ?st1"
  have skip: "wait_with_timeout condition_func timeout check_interval description st
       = wait_with_timeout_loop condition_func timeout check_interval description (now st) ?stj"
    using assms a by (intro wait_with_timeout_skip) auto
  from poll_returns[of check_interval condition_func timeout description "now st" ?stj] assms(1) a
  obtain r st' rest where
    run: "wait_with_timeout_loop condition_func timeout check_interval description (now st) ?stj
            = Some (r, st')"
    and tr: "trace st' = trace ?stj @ rest"
    by blast
  have "trace ?stj = trace st
              @ Print (WORKING @ '' '' @ waiting_msg description timeout)
              # concat (map
                  (\<lambda>i. Call #
                     (if poll_elapsed condition_func check_interval (env st) 0 i mod 15 = 0
                         \<and> 0 < poll_elapsed condition_func check_interval (env st) 0 i
                      then [Print (WORKING @ '' '' @ still_waiting_for_msg description
                              (poll_elapsed condition_func check_interval (env st) 0 i))]
                      else [])
                     @ [Sleep check_interval])
                  [0..<j])"
    by (simp add: polled_def false_poll_def[abs_def] progress_15_def)
  with run tr skip
  show "\<exists>r st' rest.
         wait_with_timeout condition_func timeout check_interval description st = Some (r, st')
         \<and> trace st' = trace st
              @ Print (WORKING @ '' '' @ waiting_msg description timeout)
              # concat (map
                  (\<lambda>i. Call #
                     (if poll_elapsed condition_func check_interval (env st) 0 i mod 15 = 0
                         \<and> 0 < poll_elapsed condition_func check_interval (env st) 0 i
                      then [Print (WORKING @ '' '' @ still_waiting_for_msg description
                              (poll_elapsed condition_func check_interval (env st) 0 i))]
                      else [])
                     @ [Sleep check_interval])
                  [0..<j])
              @ rest"
    by (intro exI[of _ r] exI[of _ st'] exI[of _ rest]) simp
next
  assume a: "(\<forall>s. 0 \<le> snd (snd (container_logs client container s)))
      \<and> containers_get client container_name (env stc) = (Inr container, sc, dc)
      \<and> (\<forall>i<j. (\<exists>logs. outcome (container_logs client container) sc i = Inr logs
                      \<and> \<not> any_ready ready_messages logs)
                \<and> guard_elapsed (container_logs client container) check_interval sc 0 i
                     < of_int timeout)"
  let ?f = "container_logs client container"
  let ?w = "Print (WORKING @ '' '' @ waiting_to_start_msg container_name timeout)"
  let ?st2 = "stc\<lparr>env := sc, now := now stc + dc, trace := trace stc @ [Call, ?w]\<rparr>"
  let ?stj = "logs_polled ?f check_interval (now ?st2) j ?st2"
  have body: "wait_for_container_try client container_name ready_messages timeout check_interval stc
      = wait_for_container_loop client container container_name ready_messages timeout
          check_interval (now ?st2) ?st2"
    using a by (simp add: wait_for_container_try_def call_def print_status_None)
  have "\<forall>i<j. (\<exists>logs. outcome ?f (env ?st2) i = Inr logs \<and> \<not> any_ready ready_messages logs)
           \<and> guard_elapsed ?f check_interval (env ?st2) (now ?st2 - now ?st2) i < of_int timeout"
    using a by simp
  with assms have skip: "wait_for_container_loop client container container_name ready_messages
          timeout check_interval (now ?st2) ?st2
       = wait_for_container_loop client container container_name ready_messages timeout
          check_interval (now ?st2) ?stj"
    by (intro logs_skip) auto
  from logs_returns[of check_interval client container container_name ready_messages timeout
      "now ?st2" ?stj] assms(1) a
  obtain r0 st0 rest0 where
    run: "wait_for_container_loop client container container_name ready_messages timeout
            check_interval (now ?st2) ?stj = Some (r0, st0)"
    and tr: "trace st0 = trace ?stj @ rest0"
    by blast
  have "wait_for_container_try client container_name ready_messages timeout check_interval stc
      = Some (r0, st0)"
    unfolding body skip run ..
  from wait_for_container_extends[OF this] obtain r st' ls where
    final: "wait_for_container client container_name ready_messages timeout check_interval stc
              = Some (r, st')"
    and tr': "trace st' = trace st0 @ map Print ls"
    by blast
  have "trace ?stj = trace stc
              @ Call # Print (WORKING @ '' '' @ waiting_to_start_msg container_name timeout)
              # concat (map
                  (\<lambda>i. Call #
                     (if poll_elapsed (container_logs client container) check_interval sc 0 i
                           mod 10 = 0
                      then [Print (WORKING @ '' '' @ still_waiting_msg
                              (poll_elapsed (container_logs client container) check_interval sc 0 i))]
                      else [])
                     @ [Sleep check_interval])
                  [0..<j])"
    by (simp add: logs_polled_def not_ready_poll_def[abs_def] progress_10_def)
  with final tr tr'
  show "\<exists>r st' rest.
         wait_for_container client container_name ready_messages timeout check_interval stc
           = Some (r, st')
         \<and> trace st' = trace stc
              @ Call # Print (WORKING @ '' '' @ waiting_to_start_msg container_name timeout)
              # concat (map
                  (\<lambda>i. Call #
                     (if poll_elapsed (container_logs client container) check_interval sc 0 i
                           mod 10 = 0
                      then [Print (WORKING @ '' '' @ still_waiting_msg
                              (poll_elapsed (container_logs client container) check_interval sc 0 i))]
                      else [])
                     @ [Sleep check_interval])
                  [0..<j])
              @ rest"
    by (intro exI[of _ r] exI[of _ st'] exI[of _ "rest0 @ map Print ls"]) simp
qed

theorem still_waiting_notifications_witness:
  "(0::int) < 15 \<and> 15 \<le> sleep_max \<and> (0::int) < 5 \<and> 5 \<le> sleep_max
   \<and> (\<forall>s. 0 \<le> snd (snd (ready_at 100 s)))
   \<and> outcome (ready_at 100) (env w0) 0 = Inr False \<and> outcome (ready_at 100) (env w0) 1 = Inr False
   \<and> guard_elapsed (ready_at 100) 15 (env w0) 0 0 = 0
   \<and> guard_elapsed (ready_at 100) 15 (env w0) 0 1 = 61 / 4
   \<and> poll_elapsed (ready_at 100) 15 (env w0) 0 0 = 0
   \<and> poll_elapsed (ready_at 100) 15 (env w0) 0 1 = 15
   \<and> (\<exists>r st' rest. wait_with_timeout (ready_at 100) 60 15 ''service'' w0 = Some (r, st')
         \<and> trace st' = [Print ''[WORKING] Waiting for service (timeout: 60s)'',
                         Call, Sleep 15,
                         Call, Print ''[WORKING] Still waiting for service... (15s)'', Sleep 15]
                        @ rest)
   \<and> (\<forall>s. 0 \<le> snd (snd (container_logs slow_start () s)))
   \<and> containers_get slow_start ''db'' (env w0) = (Inr (), 1, 0)
   \<and> (\<exists>r st' rest. wait_for_container slow_start ''db'' [''ready''] 15 5 w0 = Some (r, st')
         \<and> trace st' = [Call, Print ''[WORKING] Waiting for db to start (timeout: 15s)'',
                         Call, Print ''[WORKING] Still waiting... (0s elapsed)'', Sleep 5,
                         Call, Sleep 5,
                         Call, Print ''[WORKING] Still waiting... (10s elapsed)'', Sleep 5]
                        @ rest)"
proof -
  have up: "[0..<2] = [0, 1]" "[0..<3] = [0, 1, 2]" by (simp_all add: upt_rec)
  have strs: "str_int 0 = ''0''" "str_int 10 = ''10''" "str_int 15 = ''15''" "str_int 60 = ''60''"
    by (simp_all add: str_int_def str_nat_digit str_nat_two_digits digit_def)
  have range: "(15::int) \<le> sleep_max" "(5::int) \<le> sleep_max" by (simp_all add: sleep_max_value)
  have fl: "\<lfloor>(1::rat) / 4\<rfloor> = 0" "\<lfloor>(31::rat) / 2\<rfloor> = 15" by (simp_all add: floor_eq_iff)
  have d1: "\<forall>s. 0 \<le> snd (snd (ready_at 100 s))" by (simp add: ready_at_def)
  have o: "outcome (ready_at 100) (env w0) 0 = Inr False" "outcome (ready_at 100) (env w0) 1 = Inr False"
    by (simp_all add: outcome_def env_after_ready_at ready_at_def w0_def del: env_after.simps)
  have g: "guard_elapsed (ready_at 100) 15 (env w0) 0 0 = 0"
    "guard_elapsed (ready_at 100) 15 (env w0) 0 1 = 61 / 4"
    by (simp_all add: guard_elapsed_def busy_ready_at del: busy.simps)
  have p: "poll_elapsed (ready_at 100) 15 (env w0) 0 0 = 0"
    "poll_elapsed (ready_at 100) 15 (env w0) 0 1 = 15"
    by (simp_all add: poll_elapsed_def busy_ready_at py_int_def fl del: busy.simps)
  have p1: "poll_elapsed (ready_at 100) 15 (env w0) 0 (Suc 0) = 15"
    using p(2) by simp
  have h1: "\<forall>i<2. outcome (ready_at 100) (env w0) i = Inr False
               \<and> guard_elapsed (ready_at 100) 15 (env w0) 0 i < of_int 60"
  proof (intro allI impI)
    fix i :: nat assume "i < 2"
    then have "i = 0 \<or> i = 1" by auto
    then show "outcome (ready_at 100) (env w0) i = Inr False
               \<and> guard_elapsed (ready_at 100) 15 (env w0) 0 i < of_int 60"
      using o g by auto
  qed
  have generic: "\<exists>r st' rest. wait_with_timeout (ready_at 100) 60 15 ''service'' w0 = Some (r, st')
         \<and> trace st' = [Print ''[WORKING] Waiting for service (timeout: 60s)'',
                         Call, Sleep 15,
                         Call, Print ''[WORKING] Still waiting for service... (15s)'', Sleep 15]
                        @ rest"
    using still_waiting_notifications [where check_interval = 15 and j = 2
        and condition_func = "ready_at 100" and st = w0 and timeout = 60
        and description = "''service''", THEN conjunct1, THEN mp, OF _ range(1) conjI[OF d1 h1]]
    by (simp add: up p p1 waiting_msg_def still_waiting_for_msg_def strs WORKING_def)
       (simp add: w0_def)
  have d2: "\<forall>s. 0 \<le> snd (snd (container_logs slow_start () s))" by (simp add: slow_start_def)
  have get: "containers_get slow_start ''db'' (env w0) = (Inr (), 1, 0)"
    by (simp add: slow_start_def w0_def)
  have py_int_of_int: "py_int (rat_of_int z) = z" for z
    by (simp add: py_int_def)
  have pc: "poll_elapsed (container_logs slow_start ()) 5 s 0 i = int i * 5" for s i
  proof -
    have "poll_elapsed (container_logs slow_start ()) 5 s 0 i = py_int (rat_of_int (int i * 5))"
      by (simp add: poll_elapsed_def busy_logs_slow_start del: busy.simps)
    then show ?thesis by (simp only: py_int_of_int)
  qed
  have oc: "outcome (container_logs slow_start ()) 1 i = Inr ''booting''" for i
    by (simp add: outcome_def slow_start_def)
  have gc: "guard_elapsed (container_logs slow_start ()) 5 1 0 i = rat_of_int (int i * 5)" for i
    by (simp add: guard_elapsed_def busy_logs_slow_start del: busy.simps)
  have h2: "\<forall>i<3. (\<exists>logs. outcome (container_logs slow_start ()) 1 i = Inr logs
                     \<and> \<not> any_ready [''ready''] logs)
               \<and> guard_elapsed (container_logs slow_start ()) 5 1 0 i < of_int 15"
  proof (intro allI impI)
    fix i :: nat assume "i < 3"
    then have "i = 0 \<or> i = 1 \<or> i = 2" by auto
    then show "(\<exists>logs. outcome (container_logs slow_start ()) 1 i = Inr logs
                     \<and> \<not> any_ready [''ready''] logs)
               \<and> guard_elapsed (container_logs slow_start ()) 5 1 0 i < of_int 15"
      unfolding oc gc by auto
  qed
  have container: "\<exists>r st' rest. wait_for_container slow_start ''db'' [''ready''] 15 5 w0 = Some (r, st')
         \<and> trace st' = [Call, Print ''[WORKING] Waiting for db to start (timeout: 15s)'',
                         Call, Print ''[WORKING] Still waiting... (0s elapsed)'', Sleep 5,
                         Call, Sleep 5,
                         Call, Print ''[WORKING] Still waiting... (10s elapsed)'', Sleep 5]
                        @ rest"
    using still_waiting_notifications [where check_interval = 5 and j = 3
        and client = slow_start and container = "()" and stc = w0 and sc = 1 and dc = 0
        and timeout = 15 and ready_messages = "[''ready'']" and container_name = "''db''",
        THEN conjunct2, THEN mp, OF _ range(2) conjI[OF d2 conjI[OF get h2]]]
    by (simp add: up pc waiting_to_start_msg_def still_waiting_msg_def strs WORKING_def)
       (simp add: w0_def)
  from range d1 o g p generic d2 get container show ?thesis by simp
qed

end
